theory Spec2Isabelle
  imports Complex_Main "HOL-Library.Multiset" "HOL-Library.Char_ord" "HOL-Library.List_Lexorder"
begin

section \<open>Detection evaluation: IoU, greedy matching, AP and mAP (infer.py)\<close>

text \<open>
  The functions \<open>get_iou\<close> and \<open>compute_map\<close> of \<^verbatim>\<open>infer.py\<close> are embedded here
  over the real numbers: every Python float is a \<open>real\<close>, so rounding, infinities and
  NaN operands are outside the model. Exceptions are values of the type \<open>error\<close>; a
  function that can raise returns \<open>error + 'a\<close> with \<open>Inl\<close> for the exception.
\<close>

subsection \<open>Errors and Python list indexing\<close>

datatype error = KeyError | IndexError | ValueError | ZeroDivisionError

text \<open>
  \<open>xs[i]\<close> for a Python integer \<open>i\<close>: a negative index counts from the end, and an
  index outside \<open>-len(xs) .. len(xs) - 1\<close> raises IndexError. \<open>py_index\<close> gives the
  position that is read or written.
\<close>

definition py_index :: "'a list \<Rightarrow> int \<Rightarrow> error + nat" where
  "py_index xs i =
     (let n = int (length xs); j = (if i < 0 then n + i else i)
      in if 0 \<le> j \<and> j < n then Inr (nat j) else Inl IndexError)"

definition py_get :: "'a list \<Rightarrow> int \<Rightarrow> error + 'a" where
  "py_get xs i = (case py_index xs i of Inl e \<Rightarrow> Inl e | Inr j \<Rightarrow> Inr (xs ! j))"

subsection \<open>Boxes and \<open>get_iou\<close>\<close>

text \<open>A box is \<open>(x1, y1, x2, y2)\<close>; no ordering of the coordinates is required.\<close>

type_synonym box = "real \<times> real \<times> real \<times> real"

definition degenerate :: "box \<Rightarrow> bool" where
  "degenerate b = (case b of (x1, y1, x2, y2) \<Rightarrow> x2 < x1 \<or> y2 < y1)"

definition box_area :: "box \<Rightarrow> real" where
  "box_area b = (case b of (x1, y1, x2, y2) \<Rightarrow> (x2 - x1) * (y2 - y1))"

text \<open>
  Coordinates of magnitude at most \<open>10\<^sup>1\<^sup>5\<^sup>0\<close>: the areas and their sums computed by
  \<open>get_iou\<close> on such boxes are far from the overflow of a 64-bit float.
\<close>

definition moderate :: "box \<Rightarrow> bool" where
  "moderate b = (case b of (x1, y1, x2, y2) \<Rightarrow>
     \<bar>x1\<bar> \<le> 10 ^ 150 \<and> \<bar>y1\<bar> \<le> 10 ^ 150 \<and> \<bar>x2\<bar> \<le> 10 ^ 150 \<and> \<bar>y2\<bar> \<le> 10 ^ 150)"

text \<open>
  \<open>get_iou\<close>, lines 16 to 33. The final division is Python's true division, which raises
  ZeroDivisionError on a zero divisor; the model keeps that branch.
\<close>

definition get_iou :: "box \<Rightarrow> box \<Rightarrow> error + real" where
  "get_iou det gt =
     (case det of (det_x1, det_y1, det_x2, det_y2) \<Rightarrow>
      case gt of (gt_x1, gt_y1, gt_x2, gt_y2) \<Rightarrow>
        let x_left = max det_x1 gt_x1;
            y_top = max det_y1 gt_y1;
            x_right = min det_x2 gt_x2;
            y_bottom = min det_y2 gt_y2
        in if x_right < x_left \<or> y_bottom < y_top then Inr 0
           else
             let area_intersection = (x_right - x_left) * (y_bottom - y_top);
                 det_area = (det_x2 - det_x1) * (det_y2 - det_y1);
                 gt_area = (gt_x2 - gt_x1) * (gt_y2 - gt_y1);
                 area_union = det_area + gt_area - area_intersection + 1 / 10 ^ 6
             in if area_union = 0 then Inl ZeroDivisionError
                else Inr (area_intersection / area_union))"

subsection \<open>Inputs of \<open>compute_map\<close>\<close>

text \<open>
  A detection \<open>[x1, y1, x2, y2, score]\<close> is a box with its score: \<open>det_pred[:-1]\<close> is the
  first component and \<open>det_pred[-1]\<close> the second. A per-image dictionary from class
  labels to lists is an association list read with \<open>map_of\<close>; its keys are \<open>map fst\<close>.
  Labels are of any linearly ordered type, as \<open>sorted\<close> requires.
\<close>

type_synonym detection = "box \<times> real"
type_synonym 'l det_image = "('l \<times> detection list) list"
type_synonym 'l gt_image = "('l \<times> box list) list"

datatype ap_value = AP real | NaN

text \<open>Lines 57 and 58: the sorted set of all keys of all ground-truth dictionaries.\<close>

definition gt_labels :: "('l::linorder) gt_image list \<Rightarrow> 'l list" where
  "gt_labels gt_boxes = sorted_list_of_set (set (concat (map (map fst) gt_boxes)))"

text \<open>Lines 64 to 67: the detections of one class, each with its image index.\<close>

definition cls_dets :: "'l det_image list \<Rightarrow> 'l \<Rightarrow> (nat \<times> detection) list" where
  "cls_dets det_boxes label =
     concat (map (\<lambda>(im_idx, im_dets).
                    case map_of im_dets label of
                      None \<Rightarrow> []
                    | Some ds \<Rightarrow> map (\<lambda>im_dets_label. (im_idx, im_dets_label)) ds)
                 (enumerate 0 det_boxes))"

text \<open>Line 80: a stable sort on the negated score.\<close>

definition sorted_cls_dets :: "'l det_image list \<Rightarrow> 'l \<Rightarrow> (nat \<times> detection) list" where
  "sorted_cls_dets det_boxes label = sort_key (\<lambda>k. - snd (snd k)) (cls_dets det_boxes label)"

text \<open>
  Lines 83 and 85 both read \<open>im_gts[label]\<close> for every image in order, which raises
  KeyError at the first image without the key. \<open>class_rows\<close> is that sequence of reads;
  the match table and the count are computed from its result.
\<close>

fun class_rows :: "'l gt_image list \<Rightarrow> 'l \<Rightarrow> error + box list list" where
  "class_rows [] label = Inr []"
| "class_rows (im_gts # rest) label =
     (case map_of im_gts label of
        None \<Rightarrow> Inl KeyError
      | Some bs \<Rightarrow> (case class_rows rest label of
                     Inl e \<Rightarrow> Inl e
                   | Inr rows \<Rightarrow> Inr (bs # rows)))"

definition gt_matched_init :: "box list list \<Rightarrow> bool list list" where
  "gt_matched_init rows = map (map (\<lambda>_. False)) rows"

definition num_gts_of :: "box list list \<Rightarrow> nat" where
  "num_gts_of rows = sum_list (map length rows)"

text \<open>
  Lines 93 to 101: the scan for the best ground-truth box, with the running maximum and
  its index; \<open>gt_box_idx\<close> is the position of the head of the remaining list.
\<close>

fun best_gt :: "box \<Rightarrow> box list \<Rightarrow> nat \<Rightarrow> real \<Rightarrow> int \<Rightarrow> error + (real \<times> int)" where
  "best_gt det [] gt_box_idx max_iou_found max_iou_gt_idx = Inr (max_iou_found, max_iou_gt_idx)"
| "best_gt det (gt_box # rest) gt_box_idx max_iou_found max_iou_gt_idx =
     (case get_iou det gt_box of
        Inl e \<Rightarrow> Inl e
      | Inr gt_box_iou \<Rightarrow>
          if gt_box_iou > max_iou_found
          then best_gt det rest (Suc gt_box_idx) gt_box_iou (int gt_box_idx)
          else best_gt det rest (Suc gt_box_idx) max_iou_found max_iou_gt_idx)"

text \<open>
  Lines 92 to 108, the body of the loop over the detections: it returns the entries
  \<open>tp[det_idx]\<close> and \<open>fp[det_idx]\<close> and the updated match table. The \<open>or\<close> of line 103
  only reads the table when the maximum IoU is not below the threshold.
\<close>

definition match_det ::
  "real \<Rightarrow> 'l gt_image list \<Rightarrow> 'l \<Rightarrow> bool list list \<Rightarrow> nat \<times> detection
     \<Rightarrow> error + (nat \<times> nat \<times> bool list list)" where
  "match_det iou_threshold gt_boxes label gt_matched d =
     (case d of (im_idx, det_pred) \<Rightarrow>
      case py_get gt_boxes (int im_idx) of
        Inl e \<Rightarrow> Inl e
      | Inr im \<Rightarrow>
      case map_of im label of
        None \<Rightarrow> Inl KeyError
      | Some im_gts \<Rightarrow>
      case best_gt (fst det_pred) im_gts 0 (- 1) (- 1) of
        Inl e \<Rightarrow> Inl e
      | Inr (max_iou_found, max_iou_gt_idx) \<Rightarrow>
          if max_iou_found < iou_threshold then Inr (0, 1, gt_matched)
          else
            case py_get gt_matched (int im_idx) of
              Inl e \<Rightarrow> Inl e
            | Inr row \<Rightarrow>
            case py_index row max_iou_gt_idx of
              Inl e \<Rightarrow> Inl e
            | Inr j \<Rightarrow>
                if row ! j then Inr (0, 1, gt_matched)
                else Inr (1, 0, gt_matched[im_idx := row[j := True]]))"

text \<open>Lines 86 to 108: the loop, giving the lists \<open>tp\<close> and \<open>fp\<close> and the final table.\<close>

fun match_dets ::
  "real \<Rightarrow> 'l gt_image list \<Rightarrow> 'l \<Rightarrow> bool list list \<Rightarrow> (nat \<times> detection) list
     \<Rightarrow> error + (nat list \<times> nat list \<times> bool list list)" where
  "match_dets iou_threshold gt_boxes label gt_matched [] = Inr ([], [], gt_matched)"
| "match_dets iou_threshold gt_boxes label gt_matched (d # ds) =
     (case match_det iou_threshold gt_boxes label gt_matched d of
        Inl e \<Rightarrow> Inl e
      | Inr (t, f, gt_matched') \<Rightarrow>
          (case match_dets iou_threshold gt_boxes label gt_matched' ds of
             Inl e \<Rightarrow> Inl e
           | Inr (tp, fp, m) \<Rightarrow> Inr (t # tp, f # fp, m)))"

text \<open>Lines 64 to 108 for one class: \<open>tp\<close>, \<open>fp\<close> and \<open>num_gts\<close>.\<close>

definition class_match ::
  "real \<Rightarrow> 'l det_image list \<Rightarrow> 'l gt_image list \<Rightarrow> 'l \<Rightarrow> error + (nat list \<times> nat list \<times> nat)" where
  "class_match iou_threshold det_boxes gt_boxes label =
     (case class_rows gt_boxes label of
        Inl e \<Rightarrow> Inl e
      | Inr rows \<Rightarrow>
          (case match_dets iou_threshold gt_boxes label (gt_matched_init rows)
                  (sorted_cls_dets det_boxes label) of
             Inl e \<Rightarrow> Inl e
           | Inr (tp, fp, m) \<Rightarrow> Inr (tp, fp, num_gts_of rows)))"

subsection \<open>Precision, recall and average precision\<close>

fun cumsum_from :: "nat \<Rightarrow> nat list \<Rightarrow> nat list" where
  "cumsum_from acc [] = []"
| "cumsum_from acc (x # xs) = (acc + x) # cumsum_from (acc + x) xs"

definition cumsum :: "nat list \<Rightarrow> nat list" where
  "cumsum xs = cumsum_from 0 xs"

text \<open>\<open>np.finfo(np.float32).eps\<close> is \<open>2\<^sup>-\<^sup>2\<^sup>3\<close>.\<close>

definition eps :: real where
  "eps = 1 / 2 ^ 23"

text \<open>Lines 114 and 115, on the cumulative sums.\<close>

definition recalls_of :: "nat list \<Rightarrow> nat \<Rightarrow> real list" where
  "recalls_of tp num_gts = map (\<lambda>t. real t / max (real num_gts) eps) tp"

definition precisions_of :: "nat list \<Rightarrow> nat list \<Rightarrow> real list" where
  "precisions_of tp fp = map (\<lambda>(t, f). real t / max (real (t + f)) eps) (zip tp fp)"

text \<open>
  Lines 124 and 125: from the last index down, each entry becomes the maximum of itself
  and its already updated right neighbour.
\<close>

fun envelope :: "real list \<Rightarrow> real list" where
  "envelope [] = []"
| "envelope [p] = [p]"
| "envelope (p # q # ps) = (let e = envelope (q # ps) in max p (hd e) # e)"

text \<open>Lines 118 to 129.\<close>

definition ap_area :: "real list \<Rightarrow> real list \<Rightarrow> real" where
  "ap_area recalls precisions =
     (let r = [0] @ recalls @ [1];
          p = envelope ([0] @ precisions @ [0]);
          i = filter (\<lambda>i. r ! (i + 1) \<noteq> r ! i) [0 ..< length r - 1]
      in sum_list (map (\<lambda>i. (r ! (i + 1) - r ! i) * p ! (i + 1)) i))"

text \<open>
  Lines 131 to 139. \<open>np.arange(0, 1 + 1E-3, 0.1)\<close> has eleven points, taken here as the
  reals \<open>k / 10\<close> for \<open>k = 0, ..., 10\<close>; the precisions selected by the mask are reduced
  by \<open>max\<close>, or give 0 when there is none. The floats of \<open>np.arange\<close> differ from \<open>k / 10\<close>
  in the last place (three of them are above it), so a recall that is equal to a point
  over the reals may compare differently in the program: \<open>ap_interp\<close> idealises the
  program there, and nothing below depends on its value except on an empty curve.
\<close>

definition ap_interp :: "real list \<Rightarrow> real list \<Rightarrow> real" where
  "ap_interp recalls precisions =
     sum_list (map (\<lambda>k. let interp_pt = real k / 10;
                            prec_interp_pt = map snd (filter (\<lambda>(r, p). r \<ge> interp_pt)
                                                        (zip recalls precisions))
                        in case prec_interp_pt of [] \<Rightarrow> 0 | p # ps \<Rightarrow> fold max ps p)
                   [0 ..< 11]) / 11"

text \<open>Lines 117 to 141: the choice of the method, with its ValueError.\<close>

definition ap_of :: "string \<Rightarrow> real list \<Rightarrow> real list \<Rightarrow> error + real" where
  "ap_of method recalls precisions =
     (if method = ''area'' then Inr (ap_area recalls precisions)
      else if method = ''interp'' then Inr (ap_interp recalls precisions)
      else Inl ValueError)"

text \<open>Lines 64 to 141 for one class: the value \<open>ap\<close> and \<open>num_gts\<close>.\<close>

definition class_ap ::
  "real \<Rightarrow> string \<Rightarrow> 'l det_image list \<Rightarrow> 'l gt_image list \<Rightarrow> 'l \<Rightarrow> error + (real \<times> nat)" where
  "class_ap iou_threshold method det_boxes gt_boxes label =
     (case class_match iou_threshold det_boxes gt_boxes label of
        Inl e \<Rightarrow> Inl e
      | Inr (tp, fp, num_gts) \<Rightarrow>
          (let tp = cumsum tp; fp = cumsum fp;
               recalls = recalls_of tp num_gts;
               precisions = precisions_of tp fp
           in case ap_of method recalls precisions of
                Inl e \<Rightarrow> Inl e
              | Inr ap \<Rightarrow> Inr (ap, num_gts)))"

subsection \<open>\<open>compute_map\<close>\<close>

text \<open>
  Lines 62 to 146: the loop over the labels, with the list \<open>aps\<close> and the dictionary
  \<open>all_aps\<close> (in insertion order) as its state.
\<close>

fun classes_loop ::
  "real \<Rightarrow> string \<Rightarrow> 'l det_image list \<Rightarrow> 'l gt_image list \<Rightarrow> 'l list
     \<Rightarrow> real list \<Rightarrow> ('l \<times> ap_value) list \<Rightarrow> error + (real list \<times> ('l \<times> ap_value) list)" where
  "classes_loop iou_threshold method det_boxes gt_boxes [] aps all_aps = Inr (aps, all_aps)"
| "classes_loop iou_threshold method det_boxes gt_boxes (label # labels) aps all_aps =
     (case class_ap iou_threshold method det_boxes gt_boxes label of
        Inl e \<Rightarrow> Inl e
      | Inr (ap, num_gts) \<Rightarrow>
          if num_gts > 0
          then classes_loop iou_threshold method det_boxes gt_boxes labels
                 (aps @ [ap]) (all_aps @ [(label, AP ap)])
          else classes_loop iou_threshold method det_boxes gt_boxes labels
                 aps (all_aps @ [(label, NaN)]))"

text \<open>Lines 36 to 149. \<open>sum(aps) / len(aps)\<close> raises ZeroDivisionError on an empty list.\<close>

definition compute_map ::
  "'l det_image list \<Rightarrow> ('l::linorder) gt_image list \<Rightarrow> real \<Rightarrow> string
     \<Rightarrow> error + (real \<times> ('l \<times> ap_value) list)" where
  "compute_map det_boxes gt_boxes iou_threshold method =
     (case classes_loop iou_threshold method det_boxes gt_boxes (gt_labels gt_boxes) [] [] of
        Inl e \<Rightarrow> Inl e
      | Inr (aps, all_aps) \<Rightarrow>
          if length aps = 0 then Inl ZeroDivisionError
          else Inr (sum_list aps / real (length aps), all_aps))"

text \<open>
  The number of ground-truth boxes of a class over all images, for stating the
  properties: an image without the key contributes none.
\<close>

definition gt_count :: "'l gt_image list \<Rightarrow> 'l \<Rightarrow> nat" where
  "gt_count gt_boxes label =
     sum_list (map (\<lambda>im. case map_of im label of None \<Rightarrow> 0 | Some bs \<Rightarrow> length bs) gt_boxes)"

subsection \<open>The matching rule of the specification\<close>

text \<open>
  A second, independent formulation of the matching of one class, following section 4.2
  of the specification, with which the loop of the code is compared. The match state is
  a table indexed by image and ground-truth position, initially false everywhere.
\<close>

definition iou_value :: "box \<Rightarrow> box \<Rightarrow> real" where
  "iou_value a b = (case get_iou a b of Inr v \<Rightarrow> v | Inl e \<Rightarrow> 0)"

text \<open>The detections of the class in enumeration order: image by image, in list order.\<close>

definition spec_class_dets :: "'l det_image list \<Rightarrow> 'l \<Rightarrow> (nat \<times> detection) list" where
  "spec_class_dets det_boxes label =
     concat (map (\<lambda>i. map (Pair i) (case map_of (det_boxes ! i) label of
                                       None \<Rightarrow> [] | Some ds \<Rightarrow> ds))
                 [0 ..< length det_boxes])"

text \<open>The ground-truth boxes of the class in image \<open>i\<close>.\<close>

definition spec_class_gts :: "'l gt_image list \<Rightarrow> 'l \<Rightarrow> nat \<Rightarrow> box list" where
  "spec_class_gts gt_boxes label i =
     (case map_of (gt_boxes ! i) label of None \<Rightarrow> [] | Some bs \<Rightarrow> bs)"

text \<open>
  The box of maximum IoU among all boxes of the image, matched or not: the position of
  the first occurrence of the maximum.
\<close>

definition spec_best_gt :: "box \<Rightarrow> box list \<Rightarrow> nat" where
  "spec_best_gt b im_gts =
     (let vs = map (iou_value b) im_gts
      in length (takeWhile (\<lambda>v. v \<noteq> Max (set vs)) vs))"

text \<open>
  One detection: false positive when its image has no box of the class, when the maximum
  IoU is below the threshold, or when the selected box is already matched; otherwise true
  positive, and the selected box becomes matched.
\<close>

definition spec_match_det ::
  "real \<Rightarrow> (nat \<Rightarrow> box list) \<Rightarrow> (nat \<Rightarrow> nat \<Rightarrow> bool) \<Rightarrow> nat \<times> detection
     \<Rightarrow> bool \<times> (nat \<Rightarrow> nat \<Rightarrow> bool)" where
  "spec_match_det iou_threshold gts matched d =
     (case d of (im, (b, score)) \<Rightarrow>
        if gts im = [] then (False, matched)
        else
          let j = spec_best_gt b (gts im)
          in if iou_value b (gts im ! j) < iou_threshold \<or> matched im j then (False, matched)
             else (True, matched(im := (matched im)(j := True))))"

fun spec_match_dets ::
  "real \<Rightarrow> (nat \<Rightarrow> box list) \<Rightarrow> (nat \<Rightarrow> nat \<Rightarrow> bool) \<Rightarrow> (nat \<times> detection) list
     \<Rightarrow> bool list" where
  "spec_match_dets iou_threshold gts matched [] = []"
| "spec_match_dets iou_threshold gts matched (d # ds) =
     (case spec_match_det iou_threshold gts matched d of
        (is_tp, matched') \<Rightarrow> is_tp # spec_match_dets iou_threshold gts matched' ds)"

text \<open>The table of the specification after a list of detections.\<close>

definition spec_table_after ::
  "real \<Rightarrow> (nat \<Rightarrow> box list) \<Rightarrow> (nat \<Rightarrow> nat \<Rightarrow> bool) \<Rightarrow> (nat \<times> detection) list
     \<Rightarrow> (nat \<Rightarrow> nat \<Rightarrow> bool)" where
  "spec_table_after iou_threshold gts matched ds =
     fold (\<lambda>d m. snd (spec_match_det iou_threshold gts m d)) ds matched"

text \<open>The true-positive flags of a class, for the detections in the order given.\<close>

definition spec_flags :: "real \<Rightarrow> 'l gt_image list \<Rightarrow> 'l \<Rightarrow> (nat \<times> detection) list \<Rightarrow> bool list" where
  "spec_flags iou_threshold gt_boxes label ds =
     spec_match_dets iou_threshold (spec_class_gts gt_boxes label) (\<lambda>im j. False) ds"

definition tp_of :: "bool list \<Rightarrow> nat list" where
  "tp_of flags = map (\<lambda>is_tp. if is_tp then 1 else 0) flags"

definition fp_of :: "bool list \<Rightarrow> nat list" where
  "fp_of flags = map (\<lambda>is_tp. if is_tp then 0 else 1) flags"

text \<open>
  The table of the code and the table of the specification agree on the positions of
  the ground-truth boxes.
\<close>

definition tables_agree ::
  "box list list \<Rightarrow> bool list list \<Rightarrow> (nat \<Rightarrow> nat \<Rightarrow> bool) \<Rightarrow> bool" where
  "tables_agree rows gt_matched matched =
     (length gt_matched = length rows \<and>
      (\<forall>i<length rows. length (gt_matched ! i) = length (rows ! i) \<and>
                        (\<forall>j<length (rows ! i). gt_matched ! i ! j = matched i j)))"

section \<open>Properties of \<open>get_iou\<close>\<close>

lemma intersection_le_det_area:
  fixes a b c d e f g h :: real
  assumes "max a e \<le> min c g" "max b f \<le> min d h"
  shows "(min c g - max a e) * (min d h - max b f) \<le> (c - a) * (d - b)"
proof -
  have "min c g - max a e \<le> c - a" by linarith
  moreover have "min d h - max b f \<le> d - b" by linarith
  moreover have "0 \<le> min c g - max a e" using assms(1) by linarith
  moreover have "0 \<le> min d h - max b f" using assms(2) by linarith
  moreover have "0 \<le> c - a" using assms(1) by linarith
  ultimately show ?thesis by (intro mult_mono) auto
qed

lemma area_union_pos:
  fixes a b c d e f g h :: real
  assumes "max a e \<le> min c g" "max b f \<le> min d h"
  shows "0 < (c - a) * (d - b) + (g - e) * (h - f)
             - (min c g - max a e) * (min d h - max b f) + 1 / 10 ^ 6"
proof -
  have "(min c g - max a e) * (min d h - max b f) \<le> (c - a) * (d - b)"
    using assms by (rule intersection_le_det_area)
  moreover have "0 \<le> (g - e) * (h - f)"
  proof (rule mult_nonneg_nonneg)
    show "0 \<le> g - e" using assms(1) by linarith
    show "0 \<le> h - f" using assms(2) by linarith
  qed
  ultimately show ?thesis by simp
qed

lemma get_iou_returns: "\<exists>v. get_iou det gt = Inr v \<and> 0 \<le> v"
proof -
  obtain a b c d where det: "det = (a, b, c, d)" by (cases det) auto
  obtain e f g h where gt: "gt = (e, f, g, h)" by (cases gt) auto
  show ?thesis
  proof (cases "min c g < max a e \<or> min d h < max b f")
    case True
    then show ?thesis by (auto simp: get_iou_def det gt Let_def)
  next
    case False
    then have le: "max a e \<le> min c g" "max b f \<le> min d h" by auto
    have pos: "0 < (c - a) * (d - b) + (g - e) * (h - f)
             - (min c g - max a e) * (min d h - max b f) + 1 / 10 ^ 6"
      using le by (rule area_union_pos)
    have nn: "0 \<le> (min c g - max a e) * (min d h - max b f)"
      using le by (intro mult_nonneg_nonneg) auto
    show ?thesis
      using False pos nn by (simp add: get_iou_def det gt Let_def)
  qed
qed

lemma get_iou_degenerate:
  assumes "degenerate det \<or> degenerate gt"
  shows "get_iou det gt = Inr 0"
proof -
  obtain a b c d where det: "det = (a, b, c, d)" by (cases det) auto
  obtain e f g h where gt: "gt = (e, f, g, h)" by (cases gt) auto
  have "min c g < max a e \<or> min d h < max b f"
    using assms by (auto simp: degenerate_def det gt)
  then show ?thesis by (auto simp: get_iou_def det gt Let_def)
qed

text \<open>
  C9. \<open>get_iou\<close> returns a value for every pair of boxes (the division never has a zero
  divisor, so nothing is raised), and when either box is degenerate (\<open>x2 < x1\<close> or
  \<open>y2 < y1\<close>) the value returned is exactly zero.
\<close>

theorem get_iou_total:
  "(\<exists>v. get_iou det gt = Inr v) \<and>
   (degenerate det \<or> degenerate gt \<longrightarrow> get_iou det gt = Inr 0)"
  using get_iou_returns [of det gt] get_iou_degenerate [of det gt] by blast

theorem get_iou_total_witness:
  "degenerate (3, 0, 1, 2) \<and> get_iou (3, 0, 1, 2) (0, 0, 4, 4) = Inr 0"
  using get_iou_total [of "(3, 0, 1, 2)" "(0, 0, 4, 4)"]
  by (simp add: degenerate_def)

text \<open>
  C8 as stated fails: a box of zero area has IoU 0 with itself, and a box of area
  \<open>10\<^sup>-\<^sup>6\<close> has IoU one half with itself, because of the constant added to the union.
\<close>

theorem get_iou_self_counterexample:
  "get_iou (0, 0, 0, 0) (0, 0, 0, 0) = Inr 0 \<and>
   get_iou (0, 0, 1 / 1000, 1 / 1000) (0, 0, 1 / 1000, 1 / 1000) = Inr (1 / 2)"
  by (simp add: get_iou_def Let_def)

text \<open>
  C8, amended. For every box \<open>b\<close> with \<open>x1 \<le> x2\<close>, \<open>y1 \<le> y2\<close>, coordinates of magnitude
  at most \<open>10\<^sup>1\<^sup>5\<^sup>0\<close> and area at least 1, \<open>get_iou b b\<close> is above \<open>1 - 10\<^sup>-\<^sup>6\<close> and at
  most 1.
\<close>

theorem get_iou_self:
  assumes "\<not> degenerate b" "moderate b" "1 \<le> box_area b"
  shows "\<exists>v. get_iou b b = Inr v \<and> 1 - 1 / 10 ^ 6 < v \<and> v \<le> 1"
proof -
  obtain a b' c d where b: "b = (a, b', c, d)" by (cases b) auto
  from assms(1) have le: "a \<le> c" "b' \<le> d" by (auto simp: degenerate_def b)
  define A where "A = (c - a) * (d - b')"
  have area: "box_area b = A" by (simp add: box_area_def b A_def)
  with assms(3) have A1: "1 \<le> A" by simp
  then have A0: "0 < A" by simp
  have eq: "get_iou b b = Inr (A / (A + 1 / 10 ^ 6))"
    using le A0 by (simp add: get_iou_def b Let_def A_def [symmetric])
  have up: "A / (A + 1 / 10 ^ 6) \<le> 1" using A0 by simp
  have "(1 - 1 / 10 ^ 6) * (A + 1 / 10 ^ 6) < A" using A1 by (simp add: algebra_simps)
  moreover have "0 < A + 1 / 10 ^ 6" using A0 by simp
  ultimately have low: "1 - 1 / 10 ^ 6 < A / (A + 1 / 10 ^ 6)" by (simp add: pos_less_divide_eq)
  show ?thesis using eq up low by blast
qed

theorem get_iou_self_witness:
  "\<not> degenerate (0, 0, 2, 3) \<and> moderate (0, 0, 2, 3) \<and> 1 \<le> box_area (0, 0, 2, 3) \<and>
   (\<exists>v. get_iou (0, 0, 2, 3) (0, 0, 2, 3) = Inr v \<and> 1 - 1 / 10 ^ 6 < v \<and> v \<le> 1)"
proof -
  have h1: "\<not> degenerate (0, 0, 2, 3)" by (simp add: degenerate_def)
  have h2: "moderate (0, 0, 2, 3)" by (simp add: moderate_def)
  have h3: "1 \<le> box_area (0, 0, 2, 3)" by (simp add: box_area_def)
  from get_iou_self [OF h1 h2 h3] h1 h2 h3 show ?thesis by blast
qed

section \<open>The method and the mean\<close>

lemma ap_of_unknown:
  "method \<noteq> ''area'' \<Longrightarrow> method \<noteq> ''interp'' \<Longrightarrow> ap_of method r p = Inl ValueError"
  by (simp add: ap_of_def)

lemma class_ap_unknown:
  assumes "method \<noteq> ''area''" "method \<noteq> ''interp''"
  shows "class_ap thr method det gt label =
           (case class_match thr det gt label of Inl e \<Rightarrow> Inl e | Inr r \<Rightarrow> Inl ValueError)"
  using assms by (simp add: class_ap_def ap_of_unknown Let_def split: sum.splits prod.splits)

lemma classes_loop_unknown:
  assumes "method \<noteq> ''area''" "method \<noteq> ''interp''"
  shows "classes_loop thr method det gt (label # labels) aps all_aps =
           (case class_match thr det gt label of Inl e \<Rightarrow> Inl e | Inr r \<Rightarrow> Inl ValueError)"
  using assms by (simp add: class_ap_unknown split: sum.splits)

text \<open>
  C4, amended. With a method other than \<open>area\<close> and \<open>interp\<close>, \<open>compute_map\<close> returns no
  result on any input (it never falls back to one of the two policies), and it raises
  ValueError whenever the class universe is not empty and the matching of its first class
  completes: the method is only looked at inside the loop over the classes, after the
  matching of a class.
\<close>

theorem unknown_method_fails:
  assumes "method \<noteq> ''area''" "method \<noteq> ''interp''"
  shows "(\<exists>e. compute_map det_boxes gt_boxes iou_threshold method = Inl e) \<and>
         (\<forall>label labels r.
             gt_labels gt_boxes = label # labels \<and>
             class_match iou_threshold det_boxes gt_boxes label = Inr r \<longrightarrow>
             compute_map det_boxes gt_boxes iou_threshold method = Inl ValueError)"
proof (cases "gt_labels gt_boxes")
  case Nil
  then show ?thesis by (simp add: compute_map_def)
next
  case (Cons label labels)
  have "compute_map det_boxes gt_boxes iou_threshold method =
          (case class_match iou_threshold det_boxes gt_boxes label of
             Inl e \<Rightarrow> Inl e | Inr r \<Rightarrow> Inl ValueError)"
    unfolding compute_map_def Cons classes_loop_unknown [OF assms]
    by (simp split: sum.splits)
  then show ?thesis
    using Cons by (cases "class_match iou_threshold det_boxes gt_boxes label") auto
qed

text \<open>
  C4 as stated fails: with no class in the ground truth the loop body never runs, the
  method is never looked at, and the error is the ZeroDivisionError of the mean.
\<close>

theorem unknown_method_counterexample:
  "compute_map ([] :: string det_image list) [] (1 / 2) ''bogus'' = Inl ZeroDivisionError"
  by code_simp

theorem unknown_method_fails_witness:
  "''bogus'' \<noteq> ''area'' \<and> ''bogus'' \<noteq> ''interp'' \<and>
   compute_map [[(''Laptop'', [((0, 0, 1, 1), 9 / 10)])]] [[(''Laptop'', [(0, 0, 1, 1)])]]
     (1 / 2) ''bogus'' = Inl ValueError"
proof -
  have l: "gt_labels [[(''Laptop'', [(0 :: real, 0 :: real, 1 :: real, 1 :: real)])]] = [''Laptop'']"
    by code_simp
  have m: "class_match (1 / 2) [[(''Laptop'', [((0, 0, 1, 1), 9 / 10)])]]
             [[(''Laptop'', [(0, 0, 1, 1)])]] ''Laptop'' = Inr ([1], [0], 1)"
    by code_simp
  have n: "''bogus'' \<noteq> ''area''" "''bogus'' \<noteq> ''interp''" by simp_all
  show ?thesis
    using unknown_method_fails [OF n, of "[[(''Laptop'', [((0, 0, 1, 1), 9 / 10)])]]"
        "[[(''Laptop'', [(0, 0, 1, 1)])]]" "1 / 2"] l m n by blast
qed

text \<open>
  C2. The mean of line 148 is not guarded: with an empty class universe, and with a class
  universe whose classes all have no ground-truth box, \<open>sum(aps) / len(aps)\<close> divides
  by zero and \<open>compute_map\<close> raises ZeroDivisionError.
\<close>

theorem empty_mean_unguarded:
  "compute_map ([] :: string det_image list) [] (1 / 2) ''area'' = Inl ZeroDivisionError \<and>
   compute_map [[(''Laptop'', [((0, 0, 1, 1), 9 / 10)])]] [[(''Laptop'', [])]] (1 / 2) ''interp''
     = Inl ZeroDivisionError"
  by code_simp

section \<open>The matching of one detection\<close>

lemma py_index_nat: "j < length xs \<Longrightarrow> py_index xs (int j) = Inr j"
  by (simp add: py_index_def Let_def)

lemma py_get_nat: "i < length xs \<Longrightarrow> py_get xs (int i) = Inr (xs ! i)"
  by (simp add: py_get_def py_index_nat)

lemma py_get_beyond: "\<not> i < length xs \<Longrightarrow> py_get xs (int i) = Inl IndexError"
  by (simp add: py_get_def py_index_def Let_def)

lemma py_index_minus_one_empty: "py_index [] (- 1) = Inl IndexError"
  by (simp add: py_index_def)

text \<open>
  The scan either leaves the running maximum as it was, when no remaining box exceeds
  it, or ends at the first box of largest IoU among the remaining ones.
\<close>

lemma best_gt_scan:
  "\<exists>mx' mi'. best_gt det gs k mx mi = Inr (mx', mi') \<and>
     ((mx' = mx \<and> mi' = mi \<and> (\<forall>i<length gs. \<exists>w. get_iou det (gs ! i) = Inr w \<and> w \<le> mx)) \<or>
      (\<exists>j<length gs. mi' = int (k + j) \<and> get_iou det (gs ! j) = Inr mx' \<and> mx < mx' \<and>
          (\<forall>i<length gs. \<exists>w. get_iou det (gs ! i) = Inr w \<and> w \<le> mx' \<and> (i < j \<longrightarrow> w < mx'))))"
proof (induction gs arbitrary: k mx mi)
  case Nil
  then show ?case by simp
next
  case (Cons g gs)
  obtain v where v: "get_iou det g = Inr v" using get_iou_returns by blast
  show ?case
  proof (cases "v > mx")
    case True
    from Cons.IH [of "Suc k" v "int k"] obtain mx' mi' where
      r: "best_gt det gs (Suc k) v (int k) = Inr (mx', mi')" and
      d: "(mx' = v \<and> mi' = int k \<and> (\<forall>i<length gs. \<exists>w. get_iou det (gs ! i) = Inr w \<and> w \<le> v)) \<or>
          (\<exists>j<length gs. mi' = int (Suc k + j) \<and> get_iou det (gs ! j) = Inr mx' \<and> v < mx' \<and>
            (\<forall>i<length gs. \<exists>w. get_iou det (gs ! i) = Inr w \<and> w \<le> mx' \<and> (i < j \<longrightarrow> w < mx')))"
      by blast
    have e: "best_gt det (g # gs) k mx mi = Inr (mx', mi')" using v True r by simp
    from d show ?thesis
    proof
      assume a: "mx' = v \<and> mi' = int k \<and> (\<forall>i<length gs. \<exists>w. get_iou det (gs ! i) = Inr w \<and> w \<le> v)"
      have "\<forall>i<length (g # gs). \<exists>w. get_iou det ((g # gs) ! i) = Inr w \<and> w \<le> mx' \<and> (i < 0 \<longrightarrow> w < mx')"
      proof (intro allI impI)
        fix i assume "i < length (g # gs)"
        then show "\<exists>w. get_iou det ((g # gs) ! i) = Inr w \<and> w \<le> mx' \<and> (i < 0 \<longrightarrow> w < mx')"
          using a v by (cases i) auto
      qed
      then have "\<exists>j<length (g # gs). mi' = int (k + j) \<and> get_iou det ((g # gs) ! j) = Inr mx' \<and> mx < mx' \<and>
          (\<forall>i<length (g # gs). \<exists>w. get_iou det ((g # gs) ! i) = Inr w \<and> w \<le> mx' \<and> (i < j \<longrightarrow> w < mx'))"
        using a v True by (intro exI [of _ 0]) simp
      then show ?thesis using e by blast
    next
      assume "\<exists>j<length gs. mi' = int (Suc k + j) \<and> get_iou det (gs ! j) = Inr mx' \<and> v < mx' \<and>
            (\<forall>i<length gs. \<exists>w. get_iou det (gs ! i) = Inr w \<and> w \<le> mx' \<and> (i < j \<longrightarrow> w < mx'))"
      then obtain j where j: "j < length gs" "mi' = int (Suc k + j)" "get_iou det (gs ! j) = Inr mx'"
        "v < mx'" and
        a: "\<forall>i<length gs. \<exists>w. get_iou det (gs ! i) = Inr w \<and> w \<le> mx' \<and> (i < j \<longrightarrow> w < mx')"
        by blast
      have "\<forall>i<length (g # gs). \<exists>w. get_iou det ((g # gs) ! i) = Inr w \<and> w \<le> mx' \<and> (i < Suc j \<longrightarrow> w < mx')"
      proof (intro allI impI)
        fix i assume "i < length (g # gs)"
        then show "\<exists>w. get_iou det ((g # gs) ! i) = Inr w \<and> w \<le> mx' \<and> (i < Suc j \<longrightarrow> w < mx')"
          using a v j(4) by (cases i) auto
      qed
      then have "\<exists>j<length (g # gs). mi' = int (k + j) \<and> get_iou det ((g # gs) ! j) = Inr mx' \<and> mx < mx' \<and>
          (\<forall>i<length (g # gs). \<exists>w. get_iou det ((g # gs) ! i) = Inr w \<and> w \<le> mx' \<and> (i < j \<longrightarrow> w < mx'))"
        using j True by (intro exI [of _ "Suc j"]) simp
      then show ?thesis using e by blast
    qed
  next
    case False
    from Cons.IH [of "Suc k" mx mi] obtain mx' mi' where
      r: "best_gt det gs (Suc k) mx mi = Inr (mx', mi')" and
      d: "(mx' = mx \<and> mi' = mi \<and> (\<forall>i<length gs. \<exists>w. get_iou det (gs ! i) = Inr w \<and> w \<le> mx)) \<or>
          (\<exists>j<length gs. mi' = int (Suc k + j) \<and> get_iou det (gs ! j) = Inr mx' \<and> mx < mx' \<and>
            (\<forall>i<length gs. \<exists>w. get_iou det (gs ! i) = Inr w \<and> w \<le> mx' \<and> (i < j \<longrightarrow> w < mx')))"
      by blast
    have e: "best_gt det (g # gs) k mx mi = Inr (mx', mi')" using v False r by simp
    from d show ?thesis
    proof
      assume a: "mx' = mx \<and> mi' = mi \<and> (\<forall>i<length gs. \<exists>w. get_iou det (gs ! i) = Inr w \<and> w \<le> mx)"
      have "\<forall>i<length (g # gs). \<exists>w. get_iou det ((g # gs) ! i) = Inr w \<and> w \<le> mx"
      proof (intro allI impI)
        fix i assume "i < length (g # gs)"
        then show "\<exists>w. get_iou det ((g # gs) ! i) = Inr w \<and> w \<le> mx"
          using a v False by (cases i) auto
      qed
      then show ?thesis using e a by blast
    next
      assume "\<exists>j<length gs. mi' = int (Suc k + j) \<and> get_iou det (gs ! j) = Inr mx' \<and> mx < mx' \<and>
            (\<forall>i<length gs. \<exists>w. get_iou det (gs ! i) = Inr w \<and> w \<le> mx' \<and> (i < j \<longrightarrow> w < mx'))"
      then obtain j where j: "j < length gs" "mi' = int (Suc k + j)" "get_iou det (gs ! j) = Inr mx'"
        "mx < mx'" and
        a: "\<forall>i<length gs. \<exists>w. get_iou det (gs ! i) = Inr w \<and> w \<le> mx' \<and> (i < j \<longrightarrow> w < mx')"
        by blast
      have "\<forall>i<length (g # gs). \<exists>w. get_iou det ((g # gs) ! i) = Inr w \<and> w \<le> mx' \<and> (i < Suc j \<longrightarrow> w < mx')"
      proof (intro allI impI)
        fix i assume "i < length (g # gs)"
        then show "\<exists>w. get_iou det ((g # gs) ! i) = Inr w \<and> w \<le> mx' \<and> (i < Suc j \<longrightarrow> w < mx')"
          using a v False j(4) by (cases i) auto
      qed
      then have "\<exists>j<length (g # gs). mi' = int (k + j) \<and> get_iou det ((g # gs) ! j) = Inr mx' \<and> mx < mx' \<and>
          (\<forall>i<length (g # gs). \<exists>w. get_iou det ((g # gs) ! i) = Inr w \<and> w \<le> mx' \<and> (i < j \<longrightarrow> w < mx'))"
        using j by (intro exI [of _ "Suc j"]) simp
      then show ?thesis using e by blast
    qed
  qed
qed

text \<open>From the initial values of line 93 and 94, with at least one box.\<close>

lemma best_gt_first_max:
  assumes "gs \<noteq> []"
  shows "\<exists>j v. j < length gs \<and> best_gt det gs 0 (- 1) (- 1) = Inr (v, int j) \<and>
           get_iou det (gs ! j) = Inr v \<and> 0 \<le> v \<and>
           (\<forall>i<length gs. \<exists>w. get_iou det (gs ! i) = Inr w \<and> w \<le> v \<and> (i < j \<longrightarrow> w < v))"
proof -
  from best_gt_scan [of det gs 0 "- 1" "- 1"] obtain mx' mi' where
    r: "best_gt det gs 0 (- 1) (- 1) = Inr (mx', mi')" and
    d: "(mx' = - 1 \<and> mi' = - 1 \<and> (\<forall>i<length gs. \<exists>w. get_iou det (gs ! i) = Inr w \<and> w \<le> - 1)) \<or>
        (\<exists>j<length gs. mi' = int (0 + j) \<and> get_iou det (gs ! j) = Inr mx' \<and> - 1 < mx' \<and>
          (\<forall>i<length gs. \<exists>w. get_iou det (gs ! i) = Inr w \<and> w \<le> mx' \<and> (i < j \<longrightarrow> w < mx')))"
    by blast
  have "\<not> (\<forall>i<length gs. \<exists>w. get_iou det (gs ! i) = Inr w \<and> w \<le> - 1)"
  proof
    assume "\<forall>i<length gs. \<exists>w. get_iou det (gs ! i) = Inr w \<and> w \<le> - 1"
    moreover have "0 < length gs" using assms by simp
    ultimately obtain w where "get_iou det (gs ! 0) = Inr w" "w \<le> - 1" by blast
    moreover obtain v where "get_iou det (gs ! 0) = Inr v" "0 \<le> v"
      using get_iou_returns by blast
    ultimately show False by simp
  qed
  with d obtain j where j: "j < length gs" "mi' = int j" "get_iou det (gs ! j) = Inr mx'" and
    a: "\<forall>i<length gs. \<exists>w. get_iou det (gs ! i) = Inr w \<and> w \<le> mx' \<and> (i < j \<longrightarrow> w < mx')"
    by auto
  obtain v where "get_iou det (gs ! j) = Inr v" "0 \<le> v" using get_iou_returns by blast
  with j(3) have "0 \<le> mx'" by simp
  with r j a show ?thesis by blast
qed


lemma match_det_nonempty:
  assumes "im_idx < length gt_boxes" "map_of (gt_boxes ! im_idx) label = Some im_gts"
    "im_gts \<noteq> []" "im_idx < length gt_matched"
    "length (gt_matched ! im_idx) = length im_gts"
  shows "\<exists>j v. j < length im_gts \<and> get_iou b (im_gts ! j) = Inr v \<and>
           (\<forall>i<length im_gts. \<exists>w. get_iou b (im_gts ! i) = Inr w \<and> w \<le> v \<and> (i < j \<longrightarrow> w < v)) \<and>
           match_det iou_threshold gt_boxes label gt_matched (im_idx, (b, score)) =
             (if iou_threshold \<le> v \<and> \<not> gt_matched ! im_idx ! j
              then Inr (1, 0, gt_matched[im_idx := (gt_matched ! im_idx)[j := True]])
              else Inr (0, 1, gt_matched))"
proof -
  from best_gt_first_max [OF assms(3), of b] obtain j v where
    j: "j < length im_gts" and r: "best_gt b im_gts 0 (- 1) (- 1) = Inr (v, int j)" and
    v: "get_iou b (im_gts ! j) = Inr v" and
    a: "\<forall>i<length im_gts. \<exists>w. get_iou b (im_gts ! i) = Inr w \<and> w \<le> v \<and> (i < j \<longrightarrow> w < v)"
    by blast
  have g: "py_get gt_boxes (int im_idx) = Inr (gt_boxes ! im_idx)"
    using assms(1) by (rule py_get_nat)
  have m: "py_get gt_matched (int im_idx) = Inr (gt_matched ! im_idx)"
    using assms(4) by (rule py_get_nat)
  have i: "py_index (gt_matched ! im_idx) (int j) = Inr j"
    using j assms(5) by (simp add: py_index_nat)
  have "match_det iou_threshold gt_boxes label gt_matched (im_idx, (b, score)) =
             (if iou_threshold \<le> v \<and> \<not> gt_matched ! im_idx ! j
              then Inr (1, 0, gt_matched[im_idx := (gt_matched ! im_idx)[j := True]])
              else Inr (0, 1, gt_matched))"
    by (simp add: match_det_def g assms(2) r m i)
  with j v a show ?thesis by blast
qed

lemma match_det_no_gt:
  assumes "im_idx < length gt_boxes" "map_of (gt_boxes ! im_idx) label = Some []"
    "im_idx < length gt_matched \<longrightarrow> gt_matched ! im_idx = []"
  shows "match_det iou_threshold gt_boxes label gt_matched (im_idx, det_pred) =
           (if - 1 < iou_threshold then Inr (0, 1, gt_matched) else Inl IndexError)"
proof -
  have g: "py_get gt_boxes (int im_idx) = Inr (gt_boxes ! im_idx)"
    using assms(1) by (rule py_get_nat)
  have m: "(case py_get gt_matched (int im_idx) of
              Inl e \<Rightarrow> Inl e
            | Inr row \<Rightarrow> (case py_index row (- 1) of
                            Inl e \<Rightarrow> Inl e
                          | Inr j \<Rightarrow> if row ! j then Inr (0, 1, gt_matched)
                                     else Inr (1, 0, gt_matched[im_idx := row[j := True]])))
           = (Inl IndexError :: error + nat \<times> nat \<times> bool list list)"
  proof (cases "im_idx < length gt_matched")
    case True
    then show ?thesis using assms(3) by (simp add: py_get_nat py_index_minus_one_empty)
  next
    case False
    then show ?thesis by (simp add: py_get_beyond)
  qed
  show ?thesis
    using m by (simp add: match_det_def g assms(2))
qed

lemma sorted_cls_dets_descending:
  assumes "i \<le> j" "j < length (sorted_cls_dets det_boxes label)"
  shows "snd (snd (sorted_cls_dets det_boxes label ! j))
           \<le> snd (snd (sorted_cls_dets det_boxes label ! i))"
proof -
  let ?xs = "sorted_cls_dets det_boxes label"
  have "sorted (map (\<lambda>k. - snd (snd k)) ?xs)"
    by (simp add: sorted_cls_dets_def)
  then have "map (\<lambda>k. - snd (snd k)) ?xs ! i \<le> map (\<lambda>k. - snd (snd k)) ?xs ! j"
    using assms by (simp add: sorted_iff_nth_mono del: nth_map)
  then show ?thesis using assms by simp
qed

section \<open>The rows of a class and the loop over the classes\<close>

lemma class_rows_Inr:
  "class_rows gt_boxes label = Inr rows \<Longrightarrow>
     length rows = length gt_boxes \<and>
     (\<forall>i<length gt_boxes. map_of (gt_boxes ! i) label = Some (rows ! i)) \<and>
     num_gts_of rows = gt_count gt_boxes label"
proof (induction gt_boxes arbitrary: rows)
  case Nil
  then show ?case by (simp add: num_gts_of_def gt_count_def)
next
  case (Cons im rest)
  from Cons.prems obtain bs rows' where
    b: "map_of im label = Some bs" and r: "class_rows rest label = Inr rows'" and
    e: "rows = bs # rows'"
    by (auto split: option.splits sum.splits)
  from Cons.IH [OF r] have ih: "length rows' = length rest"
    "\<forall>i<length rest. map_of (rest ! i) label = Some (rows' ! i)"
    "num_gts_of rows' = gt_count rest label" by auto
  have "\<forall>i<length (im # rest). map_of ((im # rest) ! i) label = Some (rows ! i)"
  proof (intro allI impI)
    fix i assume "i < length (im # rest)"
    then show "map_of ((im # rest) ! i) label = Some (rows ! i)"
      using b e ih(2) by (cases i) auto
  qed
  moreover have "num_gts_of rows = gt_count (im # rest) label"
    using ih(3) b e by (simp add: num_gts_of_def gt_count_def)
  ultimately show ?case using e ih(1) by simp
qed

lemma class_rows_Inl:
  "class_rows gt_boxes label = Inl e \<Longrightarrow> e = KeyError \<and> (\<exists>im\<in>set gt_boxes. map_of im label = None)"
  by (induction gt_boxes) (auto split: option.splits sum.splits)

lemma class_rows_missing:
  "im \<in> set gt_boxes \<Longrightarrow> map_of im label = None \<Longrightarrow> class_rows gt_boxes label = Inl KeyError"
proof (induction gt_boxes)
  case Nil
  then show ?case by simp
next
  case (Cons a rest)
  show ?case
  proof (cases "map_of a label")
    case None
    then show ?thesis by simp
  next
    case (Some bs)
    with Cons.prems have "im \<in> set rest" by auto
    with Cons have "class_rows rest label = Inl KeyError" by simp
    with Some show ?thesis by simp
  qed
qed

lemma class_rows_present:
  "\<forall>im\<in>set gt_boxes. map_of im label \<noteq> None \<Longrightarrow> \<exists>rows. class_rows gt_boxes label = Inr rows"
  using class_rows_Inl [of gt_boxes label] by (cases "class_rows gt_boxes label") auto

lemma class_match_num:
  "class_match thr det_boxes gt_boxes label = Inr (tp, fp, n) \<Longrightarrow> n = gt_count gt_boxes label"
  by (auto simp: class_match_def class_rows_Inr split: sum.splits)

lemma class_ap_num:
  "class_ap thr method det_boxes gt_boxes label = Inr (a, n) \<Longrightarrow> n = gt_count gt_boxes label"
  by (auto simp: class_ap_def Let_def class_match_num split: sum.splits)

lemma set_gt_labels: "set (gt_labels gt_boxes) = (\<Union>im\<in>set gt_boxes. fst ` set im)"
  by (auto simp: gt_labels_def)

lemma distinct_gt_labels: "distinct (gt_labels gt_boxes)"
  by (simp add: gt_labels_def)

lemma gt_count_pos_key:
  "0 < gt_count gt_boxes label \<Longrightarrow> label \<in> set (gt_labels gt_boxes)"
proof -
  assume "0 < gt_count gt_boxes label"
  then have "\<exists>im\<in>set gt_boxes. map_of im label \<noteq> None"
    by (induction gt_boxes) (auto simp: gt_count_def split: option.splits)
  then obtain im bs where "im \<in> set gt_boxes" "map_of im label = Some bs" by auto
  then show ?thesis
    using map_of_SomeD [of im label bs] by (force simp: set_gt_labels)
qed

text \<open>What the loop over the classes returns, when it returns.\<close>

lemma classes_loop_Inr:
  "classes_loop thr method det_boxes gt_boxes labels aps all_aps = Inr (aps', all_aps') \<Longrightarrow>
     (\<forall>l\<in>set labels. \<exists>a. class_ap thr method det_boxes gt_boxes l = Inr (a, gt_count gt_boxes l)) \<and>
     aps' = aps @ map (\<lambda>l. fst (projr (class_ap thr method det_boxes gt_boxes l)))
                    (filter (\<lambda>l. 0 < gt_count gt_boxes l) labels) \<and>
     all_aps' = all_aps @ map (\<lambda>l. (l, if 0 < gt_count gt_boxes l
                                        then AP (fst (projr (class_ap thr method det_boxes gt_boxes l)))
                                        else NaN)) labels"
proof (induction labels arbitrary: aps all_aps)
  case Nil
  then show ?case by simp
next
  case (Cons label labels)
  from Cons.prems obtain a n where c: "class_ap thr method det_boxes gt_boxes label = Inr (a, n)"
    by (auto split: sum.splits)
  then have n: "n = gt_count gt_boxes label" by (rule class_ap_num)
  show ?case
  proof (cases "0 < n")
    case True
    with Cons.prems c have
      "classes_loop thr method det_boxes gt_boxes labels (aps @ [a]) (all_aps @ [(label, AP a)])
         = Inr (aps', all_aps')" by simp
    from Cons.IH [OF this] show ?thesis using c n True by simp
  next
    case False
    with Cons.prems c have
      "classes_loop thr method det_boxes gt_boxes labels aps (all_aps @ [(label, NaN)])
         = Inr (aps', all_aps')" by simp
    from Cons.IH [OF this] show ?thesis using c n False by simp
  qed
qed

text \<open>Conversely, the loop returns when every class does.\<close>

lemma classes_loop_returns:
  "\<forall>l\<in>set labels. \<exists>r. class_ap thr method det_boxes gt_boxes l = Inr r \<Longrightarrow>
     \<exists>res. classes_loop thr method det_boxes gt_boxes labels aps all_aps = Inr res"
proof (induction labels arbitrary: aps all_aps)
  case Nil
  then show ?case by simp
next
  case (Cons label labels)
  then obtain a n where c: "class_ap thr method det_boxes gt_boxes label = Inr (a, n)"
    by fastforce
  from Cons have ih: "\<And>aps all_aps. \<exists>res. classes_loop thr method det_boxes gt_boxes labels aps all_aps = Inr res"
    by simp
  show ?case using c ih by (cases "0 < n") simp_all
qed

section \<open>Classes without detections\<close>

lemma ap_area_Nil: "ap_area [] [] = 0"
  by (simp add: ap_area_def Let_def)

lemma ap_interp_Nil: "ap_interp [] [] = 0"
  by (simp add: ap_interp_def Let_def)

lemma class_match_no_dets:
  assumes "cls_dets det_boxes label = []"
  shows "class_match thr det_boxes gt_boxes label =
           (case class_rows gt_boxes label of
              Inl e \<Rightarrow> Inl e | Inr rows \<Rightarrow> Inr ([], [], num_gts_of rows))"
  using assms by (simp add: class_match_def sorted_cls_dets_def split: sum.splits)

lemma class_ap_no_dets:
  assumes "cls_dets det_boxes label = []"
    "class_ap thr method det_boxes gt_boxes label = Inr (a, n)"
  shows "a = 0"
proof -
  from assms(2) obtain tp fp where
    m: "class_match thr det_boxes gt_boxes label = Inr (tp, fp, n)" and
    a: "ap_of method (recalls_of (cumsum tp) n) (precisions_of (cumsum tp) (cumsum fp)) = Inr a"
    by (auto simp: class_ap_def Let_def split: sum.splits)
  from m assms(1) have "tp = []" "fp = []"
    by (auto simp: class_match_no_dets split: sum.splits)
  with a have "ap_of method [] [] = Inr a"
    by (simp add: cumsum_def recalls_of_def precisions_of_def)
  then show ?thesis
    by (auto simp: ap_of_def ap_area_Nil ap_interp_Nil split: if_splits)
qed

lemma class_ap_no_dets_returns:
  assumes "cls_dets det_boxes label = []" "method = ''area'' \<or> method = ''interp''"
    "\<forall>im\<in>set gt_boxes. map_of im label \<noteq> None"
  shows "class_ap thr method det_boxes gt_boxes label = Inr (0, gt_count gt_boxes label)"
proof -
  from class_rows_present [OF assms(3)] obtain rows where
    r: "class_rows gt_boxes label = Inr rows" by blast
  then have n: "num_gts_of rows = gt_count gt_boxes label" by (simp add: class_rows_Inr)
  have m: "class_match thr det_boxes gt_boxes label = Inr ([], [], gt_count gt_boxes label)"
    using r n by (simp add: class_match_no_dets [OF assms(1)])
  have "ap_of method [] [] = Inr 0"
    using assms(2) by (auto simp: ap_of_def ap_area_Nil ap_interp_Nil)
  then show ?thesis
    by (simp add: class_ap_def m cumsum_def recalls_of_def precisions_of_def)
qed

lemma compute_map_Inr:
  assumes "compute_map det_boxes gt_boxes thr method = Inr (mean_ap, all_aps)"
  shows "(\<forall>l\<in>set (gt_labels gt_boxes).
            \<exists>a. class_ap thr method det_boxes gt_boxes l = Inr (a, gt_count gt_boxes l) \<and>
                map_of all_aps l = Some (if 0 < gt_count gt_boxes l then AP a else NaN)) \<and>
         [l \<leftarrow> gt_labels gt_boxes. 0 < gt_count gt_boxes l] \<noteq> [] \<and>
         mean_ap = sum_list (map (\<lambda>l. fst (projr (class_ap thr method det_boxes gt_boxes l)))
                               [l \<leftarrow> gt_labels gt_boxes. 0 < gt_count gt_boxes l])
                   / real (length [l \<leftarrow> gt_labels gt_boxes. 0 < gt_count gt_boxes l])"
proof -
  let ?f = "\<lambda>l. fst (projr (class_ap thr method det_boxes gt_boxes l))"
  let ?g = "\<lambda>l. if 0 < gt_count gt_boxes l then AP (?f l) else NaN"
  let ?pos = "[l \<leftarrow> gt_labels gt_boxes. 0 < gt_count gt_boxes l]"
  from assms obtain aps where
    l: "classes_loop thr method det_boxes gt_boxes (gt_labels gt_boxes) [] [] = Inr (aps, all_aps)"
    and ne: "aps \<noteq> []" and me: "mean_ap = sum_list aps / real (length aps)"
    by (auto simp: compute_map_def split: sum.splits if_splits)
  from classes_loop_Inr [OF l] have
    c: "\<forall>l\<in>set (gt_labels gt_boxes). \<exists>a. class_ap thr method det_boxes gt_boxes l = Inr (a, gt_count gt_boxes l)"
    and a: "aps = map ?f ?pos"
    and al: "all_aps = map (\<lambda>l. (l, ?g l)) (gt_labels gt_boxes)"
    by simp_all
  have "\<forall>l\<in>set (gt_labels gt_boxes).
            \<exists>a. class_ap thr method det_boxes gt_boxes l = Inr (a, gt_count gt_boxes l) \<and>
                map_of all_aps l = Some (if 0 < gt_count gt_boxes l then AP a else NaN)"
  proof
    fix l assume x: "l \<in> set (gt_labels gt_boxes)"
    with c obtain a where ca: "class_ap thr method det_boxes gt_boxes l = Inr (a, gt_count gt_boxes l)"
      by blast
    have "map_of all_aps l = Some (?g l)"
      unfolding al using x by (simp add: map_of_map_restrict)
    with ca show "\<exists>a. class_ap thr method det_boxes gt_boxes l = Inr (a, gt_count gt_boxes l) \<and>
                map_of all_aps l = Some (if 0 < gt_count gt_boxes l then AP a else NaN)"
      by simp
  qed
  moreover have "?pos \<noteq> []" using ne a by simp
  moreover have "mean_ap = sum_list (map ?f ?pos) / real (length ?pos)"
    using me a by simp
  ultimately show ?thesis by blast
qed

text \<open>
  C6. A class with at least one ground-truth box and no detection has AP 0 in the result
  of \<open>compute_map\<close>, and the computation of its AP returns 0 under both methods whenever
  every image has the class as a key.
\<close>

theorem no_detections_ap_zero:
  assumes "0 < gt_count gt_boxes label" "cls_dets det_boxes label = []"
  shows "(\<forall>mean_ap all_aps.
            compute_map det_boxes gt_boxes iou_threshold method = Inr (mean_ap, all_aps) \<longrightarrow>
            map_of all_aps label = Some (AP 0)) \<and>
         ((method = ''area'' \<or> method = ''interp'') \<and>
          (\<forall>im\<in>set gt_boxes. map_of im label \<noteq> None) \<longrightarrow>
            class_ap iou_threshold method det_boxes gt_boxes label
              = Inr (0, gt_count gt_boxes label))"
proof (intro conjI allI impI)
  fix mean_ap all_aps
  assume r: "compute_map det_boxes gt_boxes iou_threshold method = Inr (mean_ap, all_aps)"
  have k: "label \<in> set (gt_labels gt_boxes)" using assms(1) by (rule gt_count_pos_key)
  from compute_map_Inr [OF r] k obtain a where
    c: "class_ap iou_threshold method det_boxes gt_boxes label = Inr (a, gt_count gt_boxes label)"
    and m: "map_of all_aps label = Some (if 0 < gt_count gt_boxes label then AP a else NaN)"
    by blast
  from class_ap_no_dets [OF assms(2) c] have "a = 0" .
  with m assms(1) show "map_of all_aps label = Some (AP 0)" by simp
next
  assume "(method = ''area'' \<or> method = ''interp'') \<and>
          (\<forall>im\<in>set gt_boxes. map_of im label \<noteq> None)"
  then show "class_ap iou_threshold method det_boxes gt_boxes label
              = Inr (0, gt_count gt_boxes label)"
    using class_ap_no_dets_returns [OF assms(2)] by blast
qed


theorem no_detections_ap_zero_witness:
  "0 < gt_count ([[(''Laptop'', [(0, 0, 1, 1)])]] :: string gt_image list) ''Laptop'' \<and>
   cls_dets ([[]] :: string det_image list) ''Laptop'' = [] \<and>
   map_of (snd (projr (compute_map ([[]] :: string det_image list)
                 [[(''Laptop'', [(0, 0, 1, 1)])]] (1 / 2) ''area''))) ''Laptop'' = Some (AP 0) \<and>
   class_ap (1 / 2) ''interp'' ([[]] :: string det_image list)
     [[(''Laptop'', [(0, 0, 1, 1)])]] ''Laptop'' = Inr (0, 1)"
proof -
  let ?G = "[[(''Laptop'', [(0, 0, 1, 1)])]] :: string gt_image list"
  let ?D = "[[]] :: string det_image list"
  have c: "gt_count ?G ''Laptop'' = 1" by (simp add: gt_count_def)
  then have h1: "0 < gt_count ?G ''Laptop''" by simp
  have h2: "cls_dets ?D ''Laptop'' = []" by (simp add: cls_dets_def)
  define a where "a = snd (projr (compute_map ?D ?G (1 / 2) ''area''))"
  have "compute_map ?D ?G (1 / 2) ''area'' = Inr (0, [(''Laptop'', AP 0)])" by code_simp
  then have ma: "compute_map ?D ?G (1 / 2) ''area'' = Inr (0, a)" by (simp add: a_def)
  note t = no_detections_ap_zero [OF h1 h2]
  from t [of "1 / 2" "''area''"] ma have "map_of a ''Laptop'' = Some (AP 0)" by blast
  with ma have x: "map_of (snd (projr (compute_map ?D ?G (1 / 2) ''area''))) ''Laptop'' = Some (AP 0)"
    by simp
  have "(''interp'' = ''area'' \<or> ''interp'' = ''interp'') \<and> (\<forall>im\<in>set ?G. map_of im ''Laptop'' \<noteq> None)"
    by simp
  with t [of "1 / 2" "''interp''"] have "class_ap (1 / 2) ''interp'' ?D ?G ''Laptop''
              = Inr (0, gt_count ?G ''Laptop'')" by blast
  with c have y: "class_ap (1 / 2) ''interp'' ?D ?G ''Laptop'' = Inr (0, 1)" by simp
  show ?thesis by (intro conjI) (rule h1 h2 x y)+
qed

section \<open>Classes without ground truth\<close>

lemma map_of_filter_other:
  "l \<noteq> label \<Longrightarrow> map_of (filter (\<lambda>kv. fst kv \<noteq> label) im) l = map_of im l"
  by (induction im) auto

lemma cls_dets_filter_other:
  assumes "l \<noteq> label"
  shows "cls_dets (map (filter (\<lambda>kv. fst kv \<noteq> label)) det_boxes) l = cls_dets det_boxes l"
proof -
  have "\<And>n. concat (map (\<lambda>(im_idx, im_dets).
                    case map_of im_dets l of
                      None \<Rightarrow> []
                    | Some ds \<Rightarrow> map (\<lambda>im_dets_label. (im_idx, im_dets_label)) ds)
                 (enumerate n (map (filter (\<lambda>kv. fst kv \<noteq> label)) det_boxes)))
        = concat (map (\<lambda>(im_idx, im_dets).
                    case map_of im_dets l of
                      None \<Rightarrow> []
                    | Some ds \<Rightarrow> map (\<lambda>im_dets_label. (im_idx, im_dets_label)) ds)
                 (enumerate n det_boxes))"
    using assms by (induction det_boxes) (simp_all add: map_of_filter_other)
  then show ?thesis by (simp add: cls_dets_def)
qed

lemma class_ap_filter_other:
  assumes "l \<noteq> label"
  shows "class_ap thr method (map (filter (\<lambda>kv. fst kv \<noteq> label)) det_boxes) gt_boxes l
           = class_ap thr method det_boxes gt_boxes l"
proof -
  have "sorted_cls_dets (map (filter (\<lambda>kv. fst kv \<noteq> label)) det_boxes) l
          = sorted_cls_dets det_boxes l"
    unfolding sorted_cls_dets_def cls_dets_filter_other [OF assms] ..
  then have "class_match thr (map (filter (\<lambda>kv. fst kv \<noteq> label)) det_boxes) gt_boxes l
          = class_match thr det_boxes gt_boxes l"
    unfolding class_match_def by (rule arg_cong)
  then show ?thesis unfolding class_ap_def by (rule arg_cong)
qed

lemma classes_loop_cong:
  assumes "\<forall>l\<in>set labels. class_ap thr method det_boxes' gt_boxes l = class_ap thr method det_boxes gt_boxes l"
  shows "classes_loop thr method det_boxes' gt_boxes labels aps all_aps
           = classes_loop thr method det_boxes gt_boxes labels aps all_aps"
  using assms
proof (induction labels arbitrary: aps all_aps)
  case Nil
  then show ?case by simp
next
  case (Cons label labels)
  then have c: "class_ap thr method det_boxes' gt_boxes label = class_ap thr method det_boxes gt_boxes label"
    and ih: "\<And>aps all_aps. classes_loop thr method det_boxes' gt_boxes labels aps all_aps
           = classes_loop thr method det_boxes gt_boxes labels aps all_aps"
    by simp_all
  show ?case
  proof (cases "class_ap thr method det_boxes gt_boxes label")
    case (Inl e)
    with c show ?thesis by simp
  next
    case (Inr r)
    obtain ap n where "r = (ap, n)" by (cases r)
    with Inr c ih show ?thesis by simp
  qed
qed

lemma compute_map_filter_other:
  assumes "label \<notin> set (gt_labels gt_boxes)"
  shows "compute_map (map (filter (\<lambda>kv. fst kv \<noteq> label)) det_boxes) gt_boxes thr method
           = compute_map det_boxes gt_boxes thr method"
proof -
  have "\<forall>l\<in>set (gt_labels gt_boxes).
          class_ap thr method (map (filter (\<lambda>kv. fst kv \<noteq> label)) det_boxes) gt_boxes l
            = class_ap thr method det_boxes gt_boxes l"
  proof
    fix l assume "l \<in> set (gt_labels gt_boxes)"
    with assms have "l \<noteq> label" by auto
    then show "class_ap thr method (map (filter (\<lambda>kv. fst kv \<noteq> label)) det_boxes) gt_boxes l
            = class_ap thr method det_boxes gt_boxes l" by (rule class_ap_filter_other)
  qed
  from classes_loop_cong [OF this] show ?thesis unfolding compute_map_def by simp
qed

lemma compute_map_no_entry:
  assumes "compute_map det_boxes gt_boxes thr method = Inr (mean_ap, all_aps)"
  shows "map fst all_aps = gt_labels gt_boxes"
proof -
  from assms obtain aps where
    l: "classes_loop thr method det_boxes gt_boxes (gt_labels gt_boxes) [] [] = Inr (aps, all_aps)"
    by (auto simp: compute_map_def split: sum.splits if_splits)
  from classes_loop_Inr [OF l] show ?thesis by (simp add: comp_def)
qed

text \<open>
  C7 as stated fails for a class that occurs in the predictions only: it is not in the
  class universe, which is made of the keys of the ground truth, and the result has no
  entry for it, neither a number nor NaN.
\<close>

theorem zero_gt_class_counterexample:
  "cls_dets ([[(''Laptop'', [((0, 0, 1, 1), 9 / 10)]), (''Tablet'', [((0, 0, 1, 1), 8 / 10)])]]
              :: string det_image list) ''Tablet'' \<noteq> [] \<and>
   gt_count ([[(''Laptop'', [(0, 0, 1, 1)])]] :: string gt_image list) ''Tablet'' = 0 \<and>
   compute_map [[(''Laptop'', [((0, 0, 1, 1), 9 / 10)]), (''Tablet'', [((0, 0, 1, 1), 8 / 10)])]]
     [[(''Laptop'', [(0, 0, 1, 1)])]] (1 / 2) ''area'' = Inr (1, [(''Laptop'', AP 1)]) \<and>
   map_of [(''Laptop'', AP 1)] ''Tablet'' = None"
proof -
  have "compute_map [[(''Laptop'', [((0, 0, 1, 1), 9 / 10)]), (''Tablet'', [((0, 0, 1, 1), 8 / 10)])]]
     [[(''Laptop'', [(0, 0, 1, 1)])]] (1 / 2) ''area'' = Inr (1, [(''Laptop'', AP 1)])"
    by code_simp
  then show ?thesis by (simp add: cls_dets_def gt_count_def)
qed

text \<open>
  C7, amended. Take a class with no ground-truth box at all, with or without detections,
  and a call of \<open>compute_map\<close> that returns. If the class is a key of the ground truth of
  some image, its entry in the result is the marker NaN. If it occurs in the predictions
  only, the result has no entry for it, and removing its predictions from the input gives
  the same result. In both cases the mean is the mean of the APs of the other classes
  that have ground truth.
\<close>

theorem zero_gt_class_undefined:
  assumes "compute_map det_boxes gt_boxes iou_threshold method = Inr (mean_ap, all_aps)"
    "gt_count gt_boxes label = 0"
  shows "(label \<in> set (gt_labels gt_boxes) \<longrightarrow> map_of all_aps label = Some NaN) \<and>
         (label \<notin> set (gt_labels gt_boxes) \<longrightarrow>
            map_of all_aps label = None \<and>
            compute_map (map (filter (\<lambda>kv. fst kv \<noteq> label)) det_boxes) gt_boxes
              iou_threshold method = Inr (mean_ap, all_aps)) \<and>
         (\<exists>f. (\<forall>l\<in>set [l \<leftarrow> gt_labels gt_boxes. l \<noteq> label \<and> 0 < gt_count gt_boxes l].
                  map_of all_aps l = Some (AP (f l))) \<and>
              mean_ap = sum_list (map f [l \<leftarrow> gt_labels gt_boxes. l \<noteq> label \<and> 0 < gt_count gt_boxes l])
                / real (length [l \<leftarrow> gt_labels gt_boxes. l \<noteq> label \<and> 0 < gt_count gt_boxes l]))"
proof -
  let ?f = "\<lambda>l. fst (projr (class_ap iou_threshold method det_boxes gt_boxes l))"
  let ?pos = "[l \<leftarrow> gt_labels gt_boxes. 0 < gt_count gt_boxes l]"
  let ?oth = "[l \<leftarrow> gt_labels gt_boxes. l \<noteq> label \<and> 0 < gt_count gt_boxes l]"
  note r = compute_map_Inr [OF assms(1)]
  have n: "map_of all_aps label = Some NaN" if "label \<in> set (gt_labels gt_boxes)"
  proof -
    from r that obtain a where
      "map_of all_aps label = Some (if 0 < gt_count gt_boxes label then AP a else NaN)" by blast
    then show ?thesis using assms(2) by simp
  qed
  have o: "map_of all_aps label = None \<and>
            compute_map (map (filter (\<lambda>kv. fst kv \<noteq> label)) det_boxes) gt_boxes
              iou_threshold method = Inr (mean_ap, all_aps)"
    if "label \<notin> set (gt_labels gt_boxes)"
  proof -
    have "label \<notin> fst ` set all_aps"
      using compute_map_no_entry [OF assms(1)] that by (metis set_map)
    then have "map_of all_aps label = None" by (simp add: map_of_eq_None_iff)
    moreover have "compute_map (map (filter (\<lambda>kv. fst kv \<noteq> label)) det_boxes) gt_boxes
              iou_threshold method = Inr (mean_ap, all_aps)"
      using compute_map_filter_other [OF that] assms(1) by simp
    ultimately show ?thesis by simp
  qed
  have e: "?oth = ?pos"
    using assms(2) by (intro filter_cong) auto
  have m: "mean_ap = sum_list (map ?f ?oth) / real (length ?oth)"
    unfolding e using r by blast
  have "\<forall>l\<in>set ?oth. map_of all_aps l = Some (AP (?f l))"
  proof
    fix l assume l: "l \<in> set ?oth"
    then have "l \<in> set (gt_labels gt_boxes)" "0 < gt_count gt_boxes l" by auto
    with r obtain a where "class_ap iou_threshold method det_boxes gt_boxes l = Inr (a, gt_count gt_boxes l)"
      "map_of all_aps l = Some (AP a)" by fastforce
    then show "map_of all_aps l = Some (AP (?f l))" by simp
  qed
  with m have "\<exists>f. (\<forall>l\<in>set ?oth. map_of all_aps l = Some (AP (f l))) \<and>
              mean_ap = sum_list (map f ?oth) / real (length ?oth)"
    by (intro exI [of _ ?f]) simp
  with n o show ?thesis by blast
qed

theorem zero_gt_class_undefined_witness:
  "compute_map [[(''Laptop'', [((0, 0, 1, 1), 9 / 10)]), (''Tablet'', [((0, 0, 1, 1), 8 / 10)])]]
     [[(''Laptop'', [(0, 0, 1, 1)]), (''Tablet'', [])]] (1 / 2) ''area''
     = Inr (1, [(''Laptop'', AP 1), (''Tablet'', NaN)]) \<and>
   ''Tablet'' \<in> set (gt_labels ([[(''Laptop'', [(0, 0, 1, 1)]), (''Tablet'', [])]] :: string gt_image list)) \<and>
   gt_count ([[(''Laptop'', [(0, 0, 1, 1)]), (''Tablet'', [])]] :: string gt_image list) ''Tablet'' = 0 \<and>
   map_of [(''Laptop'', AP 1), (''Tablet'', NaN)] ''Tablet'' = Some NaN \<and>
   compute_map [[(''Laptop'', [((0, 0, 1, 1), 9 / 10)]), (''Tablet'', [((0, 0, 1, 1), 8 / 10)])]]
     [[(''Laptop'', [(0, 0, 1, 1)])]] (1 / 2) ''area'' = Inr (1, [(''Laptop'', AP 1)]) \<and>
   ''Tablet'' \<notin> set (gt_labels ([[(''Laptop'', [(0, 0, 1, 1)])]] :: string gt_image list)) \<and>
   gt_count ([[(''Laptop'', [(0, 0, 1, 1)])]] :: string gt_image list) ''Tablet'' = 0 \<and>
   compute_map (map (filter (\<lambda>kv. fst kv \<noteq> ''Tablet''))
        [[(''Laptop'', [((0, 0, 1, 1), 9 / 10)]), (''Tablet'', [((0, 0, 1, 1), 8 / 10)])]])
     [[(''Laptop'', [(0, 0, 1, 1)])]] (1 / 2) ''area'' = Inr (1, [(''Laptop'', AP 1)])"
proof -
  let ?D = "[[(''Laptop'', [((0, 0, 1, 1), 9 / 10)]), (''Tablet'', [((0, 0, 1, 1), 8 / 10)])]]
              :: string det_image list"
  let ?G = "[[(''Laptop'', [(0, 0, 1, 1)]), (''Tablet'', [])]] :: string gt_image list"
  let ?H = "[[(''Laptop'', [(0, 0, 1, 1)])]] :: string gt_image list"
  have h1: "compute_map ?D ?G (1 / 2) ''area'' = Inr (1, [(''Laptop'', AP 1), (''Tablet'', NaN)])"
    by code_simp
  have h2: "''Tablet'' \<in> set (gt_labels ?G)" by (simp add: set_gt_labels)
  have h3: "gt_count ?G ''Tablet'' = 0" by (simp add: gt_count_def)
  from zero_gt_class_undefined [OF h1 h3] h2
  have c: "map_of [(''Laptop'', AP 1), (''Tablet'', NaN)] ''Tablet'' = Some NaN" by blast
  have k1: "compute_map ?D ?H (1 / 2) ''area'' = Inr (1, [(''Laptop'', AP 1)])"
    by code_simp
  have k2: "''Tablet'' \<notin> set (gt_labels ?H)" by (simp add: set_gt_labels)
  have k3: "gt_count ?H ''Tablet'' = 0" by (simp add: gt_count_def)
  from zero_gt_class_undefined [OF k1 k3] k2
  have d: "compute_map (map (filter (\<lambda>kv. fst kv \<noteq> ''Tablet'')) ?D) ?H (1 / 2) ''area''
             = Inr (1, [(''Laptop'', AP 1)])" by blast
  show ?thesis by (intro conjI) (rule h1 h2 h3 c k1 k2 k3 d)+
qed

section \<open>Matching without error\<close>

lemma cls_dets_index:
  "d \<in> set (cls_dets det_boxes label) \<Longrightarrow> fst d < length det_boxes"
  by (auto simp: cls_dets_def in_set_enumerate_eq split: option.splits)

lemma sorted_cls_dets_index:
  "d \<in> set (sorted_cls_dets det_boxes label) \<Longrightarrow> fst d < length det_boxes"
  using cls_dets_index [of d det_boxes label] by (simp add: sorted_cls_dets_def)

text \<open>
  One detection is matched without error when its image exists, the image has the key,
  the table has the shape of the ground truth and the threshold is above \<open>-1\<close>; the
  shape of the table is kept.
\<close>

lemma match_det_progress:
  assumes "fst d < length gt_boxes" "map_of (gt_boxes ! fst d) label = Some im_gts"
    "length gt_matched = length gt_boxes" "length (gt_matched ! fst d) = length im_gts"
    "- 1 < thr"
  shows "\<exists>t f m'. match_det thr gt_boxes label gt_matched d = Inr (t, f, m') \<and>
           length m' = length gt_matched \<and> (\<forall>i<length gt_matched. length (m' ! i) = length (gt_matched ! i))"
proof -
  obtain im_idx b score where d: "d = (im_idx, (b, score))" by (cases d) auto
  have i: "im_idx < length gt_boxes" "im_idx < length gt_matched" using assms(1,3) d by simp_all
  show ?thesis
  proof (cases "im_gts = []")
    case True
    have "match_det thr gt_boxes label gt_matched (im_idx, (b, score)) = Inr (0, 1, gt_matched)"
      using match_det_no_gt [of im_idx gt_boxes label gt_matched thr "(b, score)"]
        assms(2,4,5) i True d by simp
    then show ?thesis using d by simp
  next
    case False
    from match_det_nonempty [OF i(1) _ False i(2), of label b thr score] assms(2,4) d
    obtain j v where j: "j < length im_gts" and
      m: "match_det thr gt_boxes label gt_matched (im_idx, (b, score)) =
             (if thr \<le> v \<and> \<not> gt_matched ! im_idx ! j
              then Inr (1, 0, gt_matched[im_idx := (gt_matched ! im_idx)[j := True]])
              else Inr (0, 1, gt_matched))"
      by auto
    show ?thesis
    proof (cases "thr \<le> v \<and> \<not> gt_matched ! im_idx ! j")
      case True
      with m have "match_det thr gt_boxes label gt_matched d =
          Inr (1, 0, gt_matched[im_idx := (gt_matched ! im_idx)[j := True]])" using d by simp
      moreover have "\<forall>i<length gt_matched.
          length (gt_matched[im_idx := (gt_matched ! im_idx)[j := True]] ! i) = length (gt_matched ! i)"
        using i(2) by (simp add: nth_list_update)
      ultimately show ?thesis by simp
    next
      case False
      with m have "match_det thr gt_boxes label gt_matched d = Inr (0, 1, gt_matched)"
        using d by simp
      then show ?thesis by simp
    qed
  qed
qed

lemma match_dets_progress:
  assumes "\<forall>d\<in>set ds. fst d < length gt_boxes"
    "\<forall>i<length gt_boxes. \<exists>bs. map_of (gt_boxes ! i) label = Some bs \<and> length (gt_matched ! i) = length bs"
    "length gt_matched = length gt_boxes" "- 1 < thr"
  shows "\<exists>r. match_dets thr gt_boxes label gt_matched ds = Inr r"
  using assms
proof (induction ds arbitrary: gt_matched)
  case Nil
  then show ?case by simp
next
  case (Cons d ds)
  from Cons.prems(1) have i: "fst d < length gt_boxes" by simp
  with Cons.prems(2) obtain bs where b: "map_of (gt_boxes ! fst d) label = Some bs"
    "length (gt_matched ! fst d) = length bs" by blast
  from match_det_progress [OF i b(1) Cons.prems(3) b(2) Cons.prems(4)] obtain t f m' where
    m: "match_det thr gt_boxes label gt_matched d = Inr (t, f, m')" and
    l: "length m' = length gt_matched" and
    s: "\<forall>i<length gt_matched. length (m' ! i) = length (gt_matched ! i)"
    by blast
  have "\<forall>i<length gt_boxes. \<exists>bs. map_of (gt_boxes ! i) label = Some bs \<and> length (m' ! i) = length bs"
    using Cons.prems(2,3) s by simp
  moreover have "length m' = length gt_boxes" using l Cons.prems(3) by simp
  moreover have "\<forall>d\<in>set ds. fst d < length gt_boxes" using Cons.prems(1) by simp
  ultimately obtain r where "match_dets thr gt_boxes label m' ds = Inr r"
    using Cons.IH [of m'] Cons.prems(4) by blast
  with m show ?case by (cases r) auto
qed

lemma class_match_progress:
  assumes "\<forall>im\<in>set gt_boxes. map_of im label \<noteq> None" "length det_boxes \<le> length gt_boxes"
    "- 1 < thr"
  shows "\<exists>r. class_match thr det_boxes gt_boxes label = Inr r"
proof -
  from class_rows_present [OF assms(1)] obtain rows where
    r: "class_rows gt_boxes label = Inr rows" by blast
  note p = class_rows_Inr [OF r]
  have a: "\<forall>d\<in>set (sorted_cls_dets det_boxes label). fst d < length gt_boxes"
    using sorted_cls_dets_index [of _ det_boxes label] assms(2) by fastforce
  have b: "\<forall>i<length gt_boxes. \<exists>bs. map_of (gt_boxes ! i) label = Some bs \<and>
             length (gt_matched_init rows ! i) = length bs"
    using p by (simp add: gt_matched_init_def)
  have c: "length (gt_matched_init rows) = length gt_boxes"
    using p by (simp add: gt_matched_init_def)
  from match_dets_progress [OF a b c assms(3)] obtain res where
    "match_dets thr gt_boxes label (gt_matched_init rows) (sorted_cls_dets det_boxes label) = Inr res"
    by blast
  then show ?thesis using r by (cases res) (auto simp: class_match_def)
qed

lemma class_ap_progress:
  assumes "\<forall>im\<in>set gt_boxes. map_of im label \<noteq> None" "length det_boxes \<le> length gt_boxes"
    "- 1 < thr" "method = ''area'' \<or> method = ''interp''"
  shows "\<exists>r. class_ap thr method det_boxes gt_boxes label = Inr r"
proof -
  from class_match_progress [OF assms(1-3)] obtain tp fp n where
    "class_match thr det_boxes gt_boxes label = Inr (tp, fp, n)" by (metis prod_cases3)
  then show ?thesis
    using assms(4) by (auto simp: class_ap_def ap_of_def Let_def)
qed

lemma class_ap_missing_key:
  assumes "im \<in> set gt_boxes" "map_of im label = None"
  shows "class_ap thr method det_boxes gt_boxes label = Inl KeyError"
  using class_rows_missing [OF assms] by (simp add: class_ap_def class_match_def)

lemma class_ap_method:
  "class_ap thr method det_boxes gt_boxes label = Inr r \<Longrightarrow> method = ''area'' \<or> method = ''interp''"
  by (auto simp: class_ap_def ap_of_def Let_def split: sum.splits if_splits)

section \<open>Missing keys\<close>

lemma classes_loop_KeyError:
  assumes "\<forall>l\<in>set labels. class_ap thr method det_boxes gt_boxes l = Inl KeyError \<or>
             (\<exists>r. class_ap thr method det_boxes gt_boxes l = Inr r)"
    "\<exists>l\<in>set labels. class_ap thr method det_boxes gt_boxes l = Inl KeyError"
  shows "classes_loop thr method det_boxes gt_boxes labels aps all_aps = Inl KeyError"
  using assms
proof (induction labels arbitrary: aps all_aps)
  case Nil
  then show ?case by simp
next
  case (Cons label labels)
  show ?case
  proof (cases "class_ap thr method det_boxes gt_boxes label")
    case (Inl e)
    with Cons.prems(1) have "e = KeyError" by auto
    with Inl show ?thesis by simp
  next
    case (Inr r)
    with Cons.prems(2) have "\<exists>l\<in>set labels. class_ap thr method det_boxes gt_boxes l = Inl KeyError"
      by auto
    moreover from Cons.prems(1) have
      "\<forall>l\<in>set labels. class_ap thr method det_boxes gt_boxes l = Inl KeyError \<or>
             (\<exists>r. class_ap thr method det_boxes gt_boxes l = Inr r)" by simp
    ultimately have "\<And>aps all_aps.
        classes_loop thr method det_boxes gt_boxes labels aps all_aps = Inl KeyError"
      using Cons.IH by blast
    with Inr show ?thesis by (cases r) simp
  qed
qed

text \<open>
  C10 as stated fails: the classes are processed in sorted order, and a class that comes
  before the one with the missing key can raise first, here ValueError for an unknown
  method.
\<close>

theorem missing_key_counterexample:
  "''Tablet'' \<in> set (gt_labels ([[(''Laptop'', []), (''Tablet'', [])], [(''Laptop'', [])]]
                                   :: string gt_image list)) \<and>
   map_of ([(''Laptop'', [])] :: string gt_image) ''Tablet'' = None \<and>
   compute_map ([[], []] :: string det_image list)
     [[(''Laptop'', []), (''Tablet'', [])], [(''Laptop'', [])]] (1 / 2) ''bogus'' = Inl ValueError"
proof -
  have "compute_map ([[], []] :: string det_image list)
     [[(''Laptop'', []), (''Tablet'', [])], [(''Laptop'', [])]] (1 / 2) ''bogus'' = Inl ValueError"
    by code_simp
  then show ?thesis by (simp add: set_gt_labels)
qed

text \<open>
  C10, amended. When a class of the class universe is not a key of the ground truth of
  some image, \<open>compute_map\<close> does not return: the evaluation of that class raises KeyError
  when its match table is built, so the call raises KeyError when that class is the first
  of the universe, and also whenever the method is \<open>area\<close> or \<open>interp\<close>, the threshold is
  above \<open>-1\<close> and the predictions have no more images than the ground truth; otherwise
  a class processed before it may raise another error first.
\<close>

theorem missing_key_raises:
  assumes "label \<in> set (gt_labels gt_boxes)" "im \<in> set gt_boxes" "map_of im label = None"
  shows "(\<exists>e. compute_map det_boxes gt_boxes iou_threshold method = Inl e) \<and>
         class_ap iou_threshold method det_boxes gt_boxes label = Inl KeyError \<and>
         (\<forall>labels. gt_labels gt_boxes = label # labels \<longrightarrow>
            compute_map det_boxes gt_boxes iou_threshold method = Inl KeyError) \<and>
         ((method = ''area'' \<or> method = ''interp'') \<and> - 1 < iou_threshold \<and>
          length det_boxes \<le> length gt_boxes \<longrightarrow>
            compute_map det_boxes gt_boxes iou_threshold method = Inl KeyError)"
proof (intro conjI allI impI)
  have k: "class_ap iou_threshold method det_boxes gt_boxes label = Inl KeyError"
    using assms(2,3) by (rule class_ap_missing_key)
  show "class_ap iou_threshold method det_boxes gt_boxes label = Inl KeyError" by (rule k)
  show "\<exists>e. compute_map det_boxes gt_boxes iou_threshold method = Inl e"
  proof (cases "classes_loop iou_threshold method det_boxes gt_boxes (gt_labels gt_boxes) [] []")
    case (Inl e)
    then show ?thesis by (simp add: compute_map_def)
  next
    case (Inr r)
    obtain aps all_aps where "r = (aps, all_aps)" by (cases r)
    with Inr classes_loop_Inr [of iou_threshold "method" det_boxes gt_boxes "gt_labels gt_boxes" "[]" "[]" aps all_aps]
      assms(1)
    have "\<exists>a. class_ap iou_threshold method det_boxes gt_boxes label = Inr (a, gt_count gt_boxes label)"
      by blast
    with k show ?thesis by simp
  qed
  {
    fix labels
    assume "gt_labels gt_boxes = label # labels"
    then show "compute_map det_boxes gt_boxes iou_threshold method = Inl KeyError"
      using k by (simp add: compute_map_def)
  }
  assume c: "(method = ''area'' \<or> method = ''interp'') \<and> - 1 < iou_threshold \<and>
          length det_boxes \<le> length gt_boxes"
  have "\<forall>l\<in>set (gt_labels gt_boxes).
          class_ap iou_threshold method det_boxes gt_boxes l = Inl KeyError \<or>
          (\<exists>r. class_ap iou_threshold method det_boxes gt_boxes l = Inr r)"
  proof
    fix l
    show "class_ap iou_threshold method det_boxes gt_boxes l = Inl KeyError \<or>
          (\<exists>r. class_ap iou_threshold method det_boxes gt_boxes l = Inr r)"
    proof (cases "\<forall>im\<in>set gt_boxes. map_of im l \<noteq> None")
      case True
      then show ?thesis using class_ap_progress [of gt_boxes l det_boxes iou_threshold "method"] c
        by blast
    next
      case False
      then show ?thesis using class_ap_missing_key [of _ gt_boxes l] by blast
    qed
  qed
  moreover have "\<exists>l\<in>set (gt_labels gt_boxes).
      class_ap iou_threshold method det_boxes gt_boxes l = Inl KeyError"
    using k assms(1) by blast
  ultimately have "classes_loop iou_threshold method det_boxes gt_boxes (gt_labels gt_boxes) [] []
      = Inl KeyError" by (rule classes_loop_KeyError)
  then show "compute_map det_boxes gt_boxes iou_threshold method = Inl KeyError"
    by (simp add: compute_map_def)
qed

theorem missing_key_raises_witness:
  "''Tablet'' \<in> set (gt_labels ([[(''Laptop'', [(0, 0, 1, 1)]), (''Tablet'', [])], [(''Laptop'', [])]]
                                   :: string gt_image list)) \<and>
   ([(''Laptop'', [])] :: string gt_image)
      \<in> set [[(''Laptop'', [(0, 0, 1, 1)]), (''Tablet'', [])], [(''Laptop'', [])]] \<and>
   map_of ([(''Laptop'', [])] :: string gt_image) ''Tablet'' = None \<and>
   compute_map [[(''Laptop'', [((0, 0, 1, 1), 9 / 10)])], []]
     [[(''Laptop'', [(0, 0, 1, 1)]), (''Tablet'', [])], [(''Laptop'', [])]] (1 / 2) ''area''
     = Inl KeyError"
proof -
  let ?G = "[[(''Laptop'', [(0, 0, 1, 1)]), (''Tablet'', [])], [(''Laptop'', [])]] :: string gt_image list"
  let ?D = "[[(''Laptop'', [((0, 0, 1, 1), 9 / 10)])], []] :: string det_image list"
  have h1: "''Tablet'' \<in> set (gt_labels ?G)" by (simp add: set_gt_labels)
  have h2: "([(''Laptop'', [])] :: string gt_image) \<in> set ?G" by simp
  have h3: "map_of ([(''Laptop'', [])] :: string gt_image) ''Tablet'' = None" by simp
  have c: "(''area'' = ''area'' \<or> ''area'' = ''interp'') \<and> - 1 < (1 / 2 :: real) \<and>
            length ?D \<le> length ?G" by simp
  from missing_key_raises [OF h1 h2 h3, of ?D "1 / 2" "''area''"] c
  have r: "compute_map ?D ?G (1 / 2) ''area'' = Inl KeyError" by blast
  show ?thesis by (intro conjI) (rule h1 h2 h3 r)+
qed

section \<open>The matching loop and the rule of the specification\<close>

lemma spec_best_gt_first_max:
  assumes "j < length im_gts" "get_iou b (im_gts ! j) = Inr v"
    "\<forall>i<length im_gts. \<exists>w. get_iou b (im_gts ! i) = Inr w \<and> w \<le> v \<and> (i < j \<longrightarrow> w < v)"
  shows "spec_best_gt b im_gts = j \<and> iou_value b (im_gts ! j) = v"
proof -
  let ?vs = "map (iou_value b) im_gts"
  have vj: "?vs ! j = v" using assms(1,2) by (simp add: iou_value_def)
  have le: "\<forall>i<length ?vs. ?vs ! i \<le> v \<and> (i < j \<longrightarrow> ?vs ! i < v)"
  proof (intro allI impI)
    fix i assume "i < length ?vs"
    then have i: "i < length im_gts" by simp
    with assms(3) obtain w where "get_iou b (im_gts ! i) = Inr w" "w \<le> v" "i < j \<longrightarrow> w < v"
      by blast
    then show "?vs ! i \<le> v \<and> (i < j \<longrightarrow> ?vs ! i < v)" using i by (simp add: iou_value_def)
  qed
  have "v \<in> set ?vs" using vj assms(1) by (metis length_map nth_mem)
  moreover have "\<forall>x\<in>set ?vs. x \<le> v"
  proof
    fix x assume "x \<in> set ?vs"
    then obtain i where "i < length ?vs" "?vs ! i = x" by (meson in_set_conv_nth)
    with le show "x \<le> v" by blast
  qed
  ultimately have mx: "Max (set ?vs) = v" by (intro Max_eqI) auto
  have "takeWhile (\<lambda>w. w \<noteq> v) ?vs = take j ?vs"
  proof (rule takeWhile_eq_take_P_nth)
    fix i assume "i < j" "i < length ?vs"
    with le show "?vs ! i \<noteq> v" by fastforce
  next
    show "\<not> ?vs ! j \<noteq> v" using vj by simp
  qed
  then have "length (takeWhile (\<lambda>w. w \<noteq> v) ?vs) = j" using assms(1) by simp
  then have "spec_best_gt b im_gts = j" unfolding spec_best_gt_def Let_def mx .
  moreover have "iou_value b (im_gts ! j) = v" using assms(2) by (simp add: iou_value_def)
  ultimately show ?thesis by simp
qed

lemma match_det_refines:
  assumes rows: "length rows = length gt_boxes"
    "\<forall>i<length gt_boxes. map_of (gt_boxes ! i) label = Some (rows ! i)"
    and agree: "tables_agree rows gt_matched matched"
    and ret: "match_det thr gt_boxes label gt_matched d = Inr (t, f, gt_matched')"
  shows "\<exists>is_tp matched'.
           spec_match_det thr (spec_class_gts gt_boxes label) matched d = (is_tp, matched') \<and>
           t = (if is_tp then 1 else 0) \<and> f = (if is_tp then 0 else 1) \<and>
           tables_agree rows gt_matched' matched'"
proof -
  obtain im b score where d: "d = (im, (b, score))" by (cases d) auto
  have im: "im < length gt_boxes"
  proof (rule ccontr)
    assume "\<not> im < length gt_boxes"
    then have "py_get gt_boxes (int im) = Inl IndexError" by (rule py_get_beyond)
    with ret d show False by (simp add: match_det_def)
  qed
  with rows have k: "map_of (gt_boxes ! im) label = Some (rows ! im)" by simp
  then have g: "spec_class_gts gt_boxes label im = rows ! im" by (simp add: spec_class_gts_def)
  from agree im rows have lm: "im < length gt_matched" "length (gt_matched ! im) = length (rows ! im)"
    and ag: "\<forall>j<length (rows ! im). gt_matched ! im ! j = matched im j"
    by (simp_all add: tables_agree_def)
  show ?thesis
  proof (cases "rows ! im = []")
    case True
    with lm have "im < length gt_matched \<longrightarrow> gt_matched ! im = []" by simp
    from match_det_no_gt [OF im _ this, of label thr "(b, score)"] k True ret d
    have "t = 0 \<and> f = 1 \<and> gt_matched' = gt_matched" by (auto split: if_splits)
    moreover have "spec_match_det thr (spec_class_gts gt_boxes label) matched d = (False, matched)"
      using True g d by (simp add: spec_match_det_def)
    ultimately show ?thesis using agree
      by (intro exI [of _ False] exI [of _ matched]) simp
  next
    case False
    from match_det_nonempty [OF im k False lm, of b thr score] obtain j v where
      j: "j < length (rows ! im)" and v: "get_iou b ((rows ! im) ! j) = Inr v" and
      a: "\<forall>i<length (rows ! im). \<exists>w. get_iou b ((rows ! im) ! i) = Inr w \<and> w \<le> v \<and> (i < j \<longrightarrow> w < v)"
      and m: "match_det thr gt_boxes label gt_matched (im, (b, score)) =
             (if thr \<le> v \<and> \<not> gt_matched ! im ! j
              then Inr (1, 0, gt_matched[im := (gt_matched ! im)[j := True]])
              else Inr (0, 1, gt_matched))"
      by blast
    from spec_best_gt_first_max [OF j v a] have
      sj: "spec_best_gt b (rows ! im) = j" and sv: "iou_value b ((rows ! im) ! j) = v" by simp_all
    from ag j have mj: "gt_matched ! im ! j = matched im j" by simp
    show ?thesis
    proof (cases "thr \<le> v \<and> \<not> gt_matched ! im ! j")
      case True
      with m ret d have r: "t = 1" "f = 0" "gt_matched' = gt_matched[im := (gt_matched ! im)[j := True]]"
        by simp_all
      have s: "spec_match_det thr (spec_class_gts gt_boxes label) matched d
                 = (True, matched(im := (matched im)(j := True)))"
        using True False g d sj sv mj by (simp add: spec_match_det_def Let_def)
      have "tables_agree rows gt_matched' (matched(im := (matched im)(j := True)))"
        unfolding tables_agree_def
      proof (intro conjI allI impI)
        show "length gt_matched' = length rows" using r(3) agree by (simp add: tables_agree_def)
      next
        fix i assume i: "i < length rows"
        show "length (gt_matched' ! i) = length (rows ! i)"
          using r(3) agree i lm by (cases "i = im") (simp_all add: tables_agree_def)
      next
        fix i j' assume i: "i < length rows" and j': "j' < length (rows ! i)"
        show "gt_matched' ! i ! j' = (matched(im := (matched im)(j := True))) i j'"
        proof (cases "i = im")
          case True
          then show ?thesis using r(3) lm ag j' j by (cases "j' = j") simp_all
        next
          case False
          then show ?thesis using r(3) agree i j' by (simp add: tables_agree_def)
        qed
      qed
      with r s show ?thesis
        by (intro exI [of _ True] exI [of _ "matched(im := (matched im)(j := True))"]) simp
    next
      case c: False
      with m ret d have r: "t = 0" "f = 1" "gt_matched' = gt_matched" by simp_all
      have s: "spec_match_det thr (spec_class_gts gt_boxes label) matched d = (False, matched)"
        using c False g d sj sv mj by (auto simp: spec_match_det_def Let_def)
      with r agree show ?thesis
        by (intro exI [of _ False] exI [of _ matched]) simp
    qed
  qed
qed

lemma match_dets_refines:
  assumes "length rows = length gt_boxes"
    "\<forall>i<length gt_boxes. map_of (gt_boxes ! i) label = Some (rows ! i)"
    "tables_agree rows gt_matched matched"
    "match_dets thr gt_boxes label gt_matched ds = Inr (tp, fp, m)"
  shows "tp = tp_of (spec_match_dets thr (spec_class_gts gt_boxes label) matched ds) \<and>
         fp = fp_of (spec_match_dets thr (spec_class_gts gt_boxes label) matched ds)"
  using assms(3,4)
proof (induction ds arbitrary: gt_matched matched tp fp)
  case Nil
  then show ?case by (simp add: tp_of_def fp_of_def)
next
  case (Cons d ds)
  from Cons.prems(2) obtain t f m1 tp1 fp1 where
    s: "match_det thr gt_boxes label gt_matched d = Inr (t, f, m1)" and
    r: "match_dets thr gt_boxes label m1 ds = Inr (tp1, fp1, m)" and
    e: "tp = t # tp1" "fp = f # fp1"
    by (auto split: sum.splits)
  from match_det_refines [OF assms(1,2) Cons.prems(1) s] obtain is_tp matched' where
    sp: "spec_match_det thr (spec_class_gts gt_boxes label) matched d = (is_tp, matched')" and
    tf: "t = (if is_tp then 1 else 0)" "f = (if is_tp then 0 else 1)" and
    ag: "tables_agree rows m1 matched'"
    by blast
  from Cons.IH [OF ag r] have
    "tp1 = tp_of (spec_match_dets thr (spec_class_gts gt_boxes label) matched' ds)"
    "fp1 = fp_of (spec_match_dets thr (spec_class_gts gt_boxes label) matched' ds)"
    by simp_all
  with e tf sp show ?case by (simp add: tp_of_def fp_of_def)
qed

lemma class_match_refines:
  assumes "class_match thr det_boxes gt_boxes label = Inr (tp, fp, n)"
  shows "tp = tp_of (spec_flags thr gt_boxes label (sorted_cls_dets det_boxes label)) \<and>
         fp = fp_of (spec_flags thr gt_boxes label (sorted_cls_dets det_boxes label)) \<and>
         n = gt_count gt_boxes label"
proof -
  from assms obtain rows m where
    r: "class_rows gt_boxes label = Inr rows" and
    l: "match_dets thr gt_boxes label (gt_matched_init rows) (sorted_cls_dets det_boxes label)
          = Inr (tp, fp, m)" and
    n: "n = num_gts_of rows"
    by (auto simp: class_match_def split: sum.splits)
  note p = class_rows_Inr [OF r]
  have a: "tables_agree rows (gt_matched_init rows) (\<lambda>im j. False)"
    by (simp add: tables_agree_def gt_matched_init_def)
  from match_dets_refines [OF _ _ a l] p n show ?thesis
    by (simp add: spec_flags_def)
qed

lemma cls_dets_spec: "cls_dets det_boxes label = spec_class_dets det_boxes label"
proof -
  let ?F = "\<lambda>(im_idx, im_dets). case map_of im_dets label of
                      None \<Rightarrow> []
                    | Some ds \<Rightarrow> map (\<lambda>im_dets_label. (im_idx, im_dets_label)) ds"
  let ?G = "\<lambda>i. map (Pair i) (case map_of (det_boxes ! i) label of None \<Rightarrow> [] | Some ds \<Rightarrow> ds)"
  have "map ?F (enumerate 0 det_boxes) = map ?G [0 ..< length det_boxes]"
  proof (rule nth_equalityI)
    show "length (map ?F (enumerate 0 det_boxes)) = length (map ?G [0 ..< length det_boxes])"
      by simp
  next
    fix i assume "i < length (map ?F (enumerate 0 det_boxes))"
    then have i: "i < length det_boxes" by simp
    then show "map ?F (enumerate 0 det_boxes) ! i = map ?G [0 ..< length det_boxes] ! i"
      by (simp add: nth_enumerate_eq split: option.splits)
  qed
  then show ?thesis by (simp add: cls_dets_def spec_class_dets_def)
qed

lemma sorted_cls_dets_stable:
  "filter (\<lambda>d. snd (snd d) = s) (sorted_cls_dets det_boxes label)
     = filter (\<lambda>d. snd (snd d) = s) (cls_dets det_boxes label)"
proof -
  have "filter (\<lambda>d. - snd (snd d) = - s) (sort_key (\<lambda>k. - snd (snd k)) (cls_dets det_boxes label))
     = filter (\<lambda>d. - snd (snd d) = - s) (cls_dets det_boxes label)"
    by (rule sort_key_stable)
  then show ?thesis by (simp add: sorted_cls_dets_def)
qed

lemma class_ap_Inr:
  assumes "class_ap thr method det_boxes gt_boxes label = Inr (a, n)"
  shows "\<exists>tp fp. class_match thr det_boxes gt_boxes label = Inr (tp, fp, n) \<and>
           ap_of method (recalls_of (cumsum tp) n) (precisions_of (cumsum tp) (cumsum fp)) = Inr a"
  using assms by (auto simp: class_ap_def Let_def split: sum.splits)


text \<open>
  C1 as stated fails for a threshold that is not above \<open>-1\<close>: for a detection in an image
  without ground-truth boxes of the class the rule gives a false positive, and the code
  reads the last entry of an empty row of the match table and raises IndexError.
\<close>

theorem matching_rule_counterexample:
  "spec_flags (- 1) ([[(''Laptop'', [(0, 0, 1, 1)])], [(''Laptop'', [])]] :: string gt_image list)
     ''Laptop''
     (sorted_cls_dets ([[(''Laptop'', [((0, 0, 1, 1), 9 / 10)])],
                        [(''Laptop'', [((0, 0, 1, 1), 8 / 10)])]] :: string det_image list)
        ''Laptop'') = [True, False] \<and>
   class_match (- 1) [[(''Laptop'', [((0, 0, 1, 1), 9 / 10)])], [(''Laptop'', [((0, 0, 1, 1), 8 / 10)])]]
     [[(''Laptop'', [(0, 0, 1, 1)])], [(''Laptop'', [])]] ''Laptop'' = Inl IndexError \<and>
   compute_map [[(''Laptop'', [((0, 0, 1, 1), 9 / 10)])], [(''Laptop'', [((0, 0, 1, 1), 8 / 10)])]]
     [[(''Laptop'', [(0, 0, 1, 1)])], [(''Laptop'', [])]] (- 1) ''area'' = Inl IndexError"
  by code_simp

text \<open>
  C1, amended. Whenever the matching of a class completes, its \<open>tp\<close> and \<open>fp\<close> arrays are
  those of the rule of the specification applied to the detections of the class in
  descending order of score, ties in enumeration order: each detection selects the first
  box of maximum IoU among all ground-truth boxes of its image and class, matched or not;
  it is a true positive exactly when there is such a box, its IoU is at least the
  threshold and it is not yet matched, and then that box becomes matched; otherwise it is
  a false positive and is not given another box. The per-class entry of a returning
  \<open>compute_map\<close> is computed from these arrays. The matching completes whenever the
  threshold is above \<open>-1\<close>, every image has the class as a key of its ground truth and
  the predictions have no more images than the ground truth.
\<close>

theorem matching_follows_rule:
  "(\<forall>tp fp n. class_match iou_threshold det_boxes gt_boxes label = Inr (tp, fp, n) \<longrightarrow>
      tp = tp_of (spec_flags iou_threshold gt_boxes label (sorted_cls_dets det_boxes label)) \<and>
      fp = fp_of (spec_flags iou_threshold gt_boxes label (sorted_cls_dets det_boxes label)) \<and>
      n = gt_count gt_boxes label) \<and>
   ((\<forall>im\<in>set gt_boxes. map_of im label \<noteq> None) \<and> length det_boxes \<le> length gt_boxes \<and>
    - 1 < iou_threshold \<longrightarrow>
      (\<exists>r. class_match iou_threshold det_boxes gt_boxes label = Inr r)) \<and>
   (\<forall>mean_ap all_aps.
      compute_map det_boxes gt_boxes iou_threshold method = Inr (mean_ap, all_aps) \<and>
      label \<in> set (gt_labels gt_boxes) \<longrightarrow>
      (\<exists>a. ap_of method
              (recalls_of (cumsum (tp_of (spec_flags iou_threshold gt_boxes label
                                           (sorted_cls_dets det_boxes label))))
                 (gt_count gt_boxes label))
              (precisions_of
                 (cumsum (tp_of (spec_flags iou_threshold gt_boxes label
                                   (sorted_cls_dets det_boxes label))))
                 (cumsum (fp_of (spec_flags iou_threshold gt_boxes label
                                   (sorted_cls_dets det_boxes label))))) = Inr a \<and>
           map_of all_aps label = Some (if 0 < gt_count gt_boxes label then AP a else NaN))) \<and>
   mset (sorted_cls_dets det_boxes label) = mset (spec_class_dets det_boxes label) \<and>
   (\<forall>p q. p \<le> q \<and> q < length (sorted_cls_dets det_boxes label) \<longrightarrow>
      snd (snd (sorted_cls_dets det_boxes label ! q))
        \<le> snd (snd (sorted_cls_dets det_boxes label ! p))) \<and>
   (\<forall>s. filter (\<lambda>d. snd (snd d) = s) (sorted_cls_dets det_boxes label)
          = filter (\<lambda>d. snd (snd d) = s) (spec_class_dets det_boxes label))"
proof (intro conjI allI impI)
  fix tp fp n
  assume "class_match iou_threshold det_boxes gt_boxes label = Inr (tp, fp, n)"
  from class_match_refines [OF this]
  show "tp = tp_of (spec_flags iou_threshold gt_boxes label (sorted_cls_dets det_boxes label))"
    and "fp = fp_of (spec_flags iou_threshold gt_boxes label (sorted_cls_dets det_boxes label))"
    and "n = gt_count gt_boxes label"
    by simp_all
next
  assume "(\<forall>im\<in>set gt_boxes. map_of im label \<noteq> None) \<and> length det_boxes \<le> length gt_boxes \<and>
    - 1 < iou_threshold"
  then show "\<exists>r. class_match iou_threshold det_boxes gt_boxes label = Inr r"
    using class_match_progress [of gt_boxes label det_boxes iou_threshold] by blast
next
  fix mean_ap all_aps
  assume h: "compute_map det_boxes gt_boxes iou_threshold method = Inr (mean_ap, all_aps) \<and>
      label \<in> set (gt_labels gt_boxes)"
  with compute_map_Inr [of det_boxes gt_boxes iou_threshold "method" mean_ap all_aps]
  obtain a where
    c: "class_ap iou_threshold method det_boxes gt_boxes label = Inr (a, gt_count gt_boxes label)"
    and m: "map_of all_aps label = Some (if 0 < gt_count gt_boxes label then AP a else NaN)"
    by blast
  from class_ap_Inr [OF c] obtain tp fp where
    cm: "class_match iou_threshold det_boxes gt_boxes label = Inr (tp, fp, gt_count gt_boxes label)"
    and ap: "ap_of method (recalls_of (cumsum tp) (gt_count gt_boxes label))
               (precisions_of (cumsum tp) (cumsum fp)) = Inr a"
    by blast
  from class_match_refines [OF cm] ap m
  show "\<exists>a. ap_of method
              (recalls_of (cumsum (tp_of (spec_flags iou_threshold gt_boxes label
                                           (sorted_cls_dets det_boxes label))))
                 (gt_count gt_boxes label))
              (precisions_of
                 (cumsum (tp_of (spec_flags iou_threshold gt_boxes label
                                   (sorted_cls_dets det_boxes label))))
                 (cumsum (fp_of (spec_flags iou_threshold gt_boxes label
                                   (sorted_cls_dets det_boxes label))))) = Inr a \<and>
           map_of all_aps label = Some (if 0 < gt_count gt_boxes label then AP a else NaN)"
    by auto
next
  show "mset (sorted_cls_dets det_boxes label) = mset (spec_class_dets det_boxes label)"
    by (simp add: sorted_cls_dets_def cls_dets_spec)
next
  fix p q
  assume "p \<le> q \<and> q < length (sorted_cls_dets det_boxes label)"
  then show "snd (snd (sorted_cls_dets det_boxes label ! q))
        \<le> snd (snd (sorted_cls_dets det_boxes label ! p))"
    using sorted_cls_dets_descending [of p q det_boxes label] by simp
next
  fix s
  show "filter (\<lambda>d. snd (snd d) = s) (sorted_cls_dets det_boxes label)
          = filter (\<lambda>d. snd (snd d) = s) (spec_class_dets det_boxes label)"
    using sorted_cls_dets_stable [of s det_boxes label] by (simp add: cls_dets_spec)
qed


theorem matching_follows_rule_witness:
  "class_match (1 / 2) [[(''Laptop'', [((0, 0, 10, 10), 9 / 10), ((0, 0, 10, 10), 8 / 10)])]]
     [[(''Laptop'', [(0, 0, 10, 10), (0, 0, 10, 8)])]] ''Laptop'' = Inr ([1, 0], [0, 1], 2) \<and>
   tp_of (spec_flags (1 / 2) ([[(''Laptop'', [(0, 0, 10, 10), (0, 0, 10, 8)])]] :: string gt_image list)
            ''Laptop''
            (sorted_cls_dets ([[(''Laptop'', [((0, 0, 10, 10), 9 / 10), ((0, 0, 10, 10), 8 / 10)])]]
                                :: string det_image list) ''Laptop'')) = [1, 0] \<and>
   map_of ([(''Laptop'', [(0, 0, 10, 10), (0, 0, 10, 8)])] :: string gt_image) ''Laptop'' \<noteq> None \<and>
   length ([[(''Laptop'', [((0, 0, 10, 10), 9 / 10), ((0, 0, 10, 10), 8 / 10)])]] :: string det_image list)
     \<le> length ([[(''Laptop'', [(0, 0, 10, 10), (0, 0, 10, 8)])]] :: string gt_image list) \<and>
   - 1 < (1 / 2 :: real) \<and>
   compute_map [[(''Laptop'', [((0, 0, 10, 10), 9 / 10), ((0, 0, 10, 10), 8 / 10)])]]
     [[(''Laptop'', [(0, 0, 10, 10), (0, 0, 10, 8)])]] (1 / 2) ''area''
     = Inr (1 / 2, [(''Laptop'', AP (1 / 2))]) \<and>
   ''Laptop'' \<in> set (gt_labels ([[(''Laptop'', [(0, 0, 10, 10), (0, 0, 10, 8)])]] :: string gt_image list)) \<and>
   ap_of ''area''
     (recalls_of (cumsum (tp_of (spec_flags (1 / 2)
          ([[(''Laptop'', [(0, 0, 10, 10), (0, 0, 10, 8)])]] :: string gt_image list) ''Laptop''
          (sorted_cls_dets ([[(''Laptop'', [((0, 0, 10, 10), 9 / 10), ((0, 0, 10, 10), 8 / 10)])]]
                                :: string det_image list) ''Laptop''))))
        (gt_count ([[(''Laptop'', [(0, 0, 10, 10), (0, 0, 10, 8)])]] :: string gt_image list) ''Laptop''))
     (precisions_of
        (cumsum (tp_of (spec_flags (1 / 2)
          ([[(''Laptop'', [(0, 0, 10, 10), (0, 0, 10, 8)])]] :: string gt_image list) ''Laptop''
          (sorted_cls_dets ([[(''Laptop'', [((0, 0, 10, 10), 9 / 10), ((0, 0, 10, 10), 8 / 10)])]]
                                :: string det_image list) ''Laptop''))))
        (cumsum (fp_of (spec_flags (1 / 2)
          ([[(''Laptop'', [(0, 0, 10, 10), (0, 0, 10, 8)])]] :: string gt_image list) ''Laptop''
          (sorted_cls_dets ([[(''Laptop'', [((0, 0, 10, 10), 9 / 10), ((0, 0, 10, 10), 8 / 10)])]]
                                :: string det_image list) ''Laptop''))))) = Inr (1 / 2)"
proof -
  let ?D = "[[(''Laptop'', [((0, 0, 10, 10), 9 / 10), ((0, 0, 10, 10), 8 / 10)])]] :: string det_image list"
  let ?G = "[[(''Laptop'', [(0, 0, 10, 10), (0, 0, 10, 8)])]] :: string gt_image list"
  note t = matching_follows_rule [of "1 / 2" ?D ?G "''Laptop''" "''area''"]
  have h1: "class_match (1 / 2) ?D ?G ''Laptop'' = Inr ([1, 0], [0, 1], 2)" by code_simp
  from t h1 have c1: "[1, 0] = tp_of (spec_flags (1 / 2) ?G ''Laptop'' (sorted_cls_dets ?D ''Laptop''))"
    by blast
  have h2: "map_of ([(''Laptop'', [(0, 0, 10, 10), (0, 0, 10, 8)])] :: string gt_image) ''Laptop'' \<noteq> None"
    by simp
  then have w: "(\<forall>im\<in>set ?G. map_of im ''Laptop'' \<noteq> None) \<and> length ?D \<le> length ?G \<and>
    - 1 < (1 / 2 :: real)" by simp
  with t have "\<exists>r. class_match (1 / 2) ?D ?G ''Laptop'' = Inr r" by blast
  have h3: "length ?D \<le> length ?G" by simp
  have h4: "- 1 < (1 / 2 :: real)" by simp
  have h5: "compute_map ?D ?G (1 / 2) ''area'' = Inr (1 / 2, [(''Laptop'', AP (1 / 2))])"
    by code_simp
  have h6: "''Laptop'' \<in> set (gt_labels ?G)" by (simp add: set_gt_labels)
  from t h5 h6 obtain a where
    a: "ap_of ''area''
          (recalls_of (cumsum (tp_of (spec_flags (1 / 2) ?G ''Laptop'' (sorted_cls_dets ?D ''Laptop''))))
             (gt_count ?G ''Laptop''))
          (precisions_of
             (cumsum (tp_of (spec_flags (1 / 2) ?G ''Laptop'' (sorted_cls_dets ?D ''Laptop''))))
             (cumsum (fp_of (spec_flags (1 / 2) ?G ''Laptop'' (sorted_cls_dets ?D ''Laptop'')))))
          = Inr a"
    and m: "map_of [(''Laptop'', AP (1 / 2))] ''Laptop''
              = Some (if 0 < gt_count ?G ''Laptop'' then AP a else NaN)"
    by blast
  have "gt_count ?G ''Laptop'' = 2" by (simp add: gt_count_def)
  with m have "a = 1 / 2" by simp
  with a have c2: "ap_of ''area''
          (recalls_of (cumsum (tp_of (spec_flags (1 / 2) ?G ''Laptop'' (sorted_cls_dets ?D ''Laptop''))))
             (gt_count ?G ''Laptop''))
          (precisions_of
             (cumsum (tp_of (spec_flags (1 / 2) ?G ''Laptop'' (sorted_cls_dets ?D ''Laptop''))))
             (cumsum (fp_of (spec_flags (1 / 2) ?G ''Laptop'' (sorted_cls_dets ?D ''Laptop'')))))
          = Inr (1 / 2)" by simp
  show ?thesis by (intro conjI) (rule h1 c1 [symmetric] h2 h3 h4 h5 h6 c2)+
qed

section \<open>Two detections on one ground-truth box\<close>

lemma spec_match_dets_length: "length (spec_match_dets thr gts matched ds) = length ds"
  by (induction ds arbitrary: matched) (auto split: prod.splits)

lemma spec_match_dets_append:
  "spec_match_dets thr gts matched (xs @ ys) =
     spec_match_dets thr gts matched xs @
     spec_match_dets thr gts (spec_table_after thr gts matched xs) ys"
  by (induction xs arbitrary: matched) (auto simp: spec_table_after_def split: prod.splits)

lemma spec_match_det_other_image:
  "fst d \<noteq> i \<Longrightarrow> snd (spec_match_det thr gts matched d) i = matched i"
  by (cases d) (auto simp: spec_match_det_def Let_def)

lemma spec_table_after_other_images:
  "\<forall>d\<in>set ds. fst d \<noteq> i \<Longrightarrow> spec_table_after thr gts matched ds i = matched i"
proof (induction ds arbitrary: matched)
  case Nil
  then show ?case by (simp add: spec_table_after_def)
next
  case (Cons d ds)
  have "spec_table_after thr gts matched (d # ds)
          = spec_table_after thr gts (snd (spec_match_det thr gts matched d)) ds"
    by (simp add: spec_table_after_def)
  then show ?case using Cons by (simp add: spec_match_det_other_image)
qed

lemma spec_best_gt_single: "spec_best_gt b [g] = 0"
  by (simp add: spec_best_gt_def)

text \<open>A detection on an image with a single box of the class.\<close>

lemma spec_match_det_single:
  assumes "gts i = [g]" "thr \<le> iou_value b g"
  shows "spec_match_det thr gts matched (i, (b, score)) =
           (if matched i 0 then (False, matched)
            else (True, matched(i := (matched i)(0 := True))))"
  using assms by (simp add: spec_match_det_def spec_best_gt_single Let_def)

text \<open>
  Two detections of an image with a single box, both overlapping it enough, with no
  other detection of that image around them: the first is a true positive and the second
  a false positive.
\<close>

lemma spec_match_dets_two_on_one:
  assumes "gts i = [g]" "thr \<le> iou_value (fst x) g" "thr \<le> iou_value (fst y) g"
    "\<forall>d\<in>set A. fst d \<noteq> i" "\<forall>d\<in>set B. fst d \<noteq> i"
  shows "spec_match_dets thr gts (\<lambda>im j. False) (A @ (i, x) # B @ (i, y) # C) ! length A = True \<and>
         spec_match_dets thr gts (\<lambda>im j. False) (A @ (i, x) # B @ (i, y) # C)
           ! (length A + 1 + length B) = False"
proof -
  let ?M0 = "\<lambda>(im :: nat) (j :: nat). False"
  let ?M1 = "spec_table_after thr gts ?M0 A"
  let ?M2 = "?M1(i := (?M1 i)(0 := True))"
  let ?M3 = "spec_table_after thr gts ?M2 B"
  obtain bx sx where x: "x = (bx, sx)" by (cases x)
  obtain by' sy where y: "y = (by', sy)" by (cases y)
  have m1: "?M1 i = ?M0 i" using assms(4) by (rule spec_table_after_other_images)
  then have "\<not> ?M1 i 0" by simp
  with spec_match_det_single [of gts i g thr bx ?M1 sx] assms(1,2) x
  have sx: "spec_match_det thr gts ?M1 (i, x) = (True, ?M2)" by simp
  have "?M3 i = ?M2 i" using assms(5) by (rule spec_table_after_other_images)
  then have "?M3 i 0" by simp
  with spec_match_det_single [of gts i g thr by' ?M3 sy] assms(1,3) y
  have sy: "spec_match_det thr gts ?M3 (i, y) = (False, ?M3)" by simp
  have e1: "spec_match_dets thr gts ?M0 (A @ (i, x) # B @ (i, y) # C) =
          spec_match_dets thr gts ?M0 A @ True # spec_match_dets thr gts ?M2 (B @ (i, y) # C)"
    by (simp add: spec_match_dets_append sx)
  have e2: "spec_match_dets thr gts ?M2 (B @ (i, y) # C) =
          spec_match_dets thr gts ?M2 B @ False # spec_match_dets thr gts ?M3 C"
    by (simp add: spec_match_dets_append sy)
  have la: "length (spec_match_dets thr gts ?M0 A) = length A" by (rule spec_match_dets_length)
  have lb: "length (spec_match_dets thr gts ?M2 B) = length B" by (rule spec_match_dets_length)
  have "(spec_match_dets thr gts ?M0 A @ True # spec_match_dets thr gts ?M2 (B @ (i, y) # C)) ! length A
          = True"
    using la by (simp add: nth_append)
  moreover have "(spec_match_dets thr gts ?M0 A @ True #
            (spec_match_dets thr gts ?M2 B @ False # spec_match_dets thr gts ?M3 C))
          ! (length A + 1 + length B) = False"
    using la lb by (simp add: nth_append)
  ultimately show ?thesis unfolding e1 e2 by simp
qed

lemma concat_only_one:
  "concat (map (\<lambda>k. if k = i then X else []) [0 ..< n]) = (if i < n then X else [])"
  by (induction n) auto

lemma spec_class_dets_image:
  assumes "i < length det_boxes"
  shows "filter (\<lambda>d. fst d = i) (spec_class_dets det_boxes label)
           = map (Pair i) (case map_of (det_boxes ! i) label of None \<Rightarrow> [] | Some ds \<Rightarrow> ds)"
proof -
  let ?G = "\<lambda>k. map (Pair k) (case map_of (det_boxes ! k) label of None \<Rightarrow> [] | Some ds \<Rightarrow> ds)"
  have "\<And>k. filter (\<lambda>d. fst d = i) (?G k) = (if k = i then ?G i else [])"
    by (auto simp: filter_empty_conv)
  then have "map (filter (\<lambda>d. fst d = i)) (map ?G [0 ..< length det_boxes])
      = map (\<lambda>k. if k = i then ?G i else []) [0 ..< length det_boxes]"
    by simp
  then have "filter (\<lambda>d. fst d = i) (spec_class_dets det_boxes label)
      = concat (map (\<lambda>k. if k = i then ?G i else []) [0 ..< length det_boxes])"
    by (simp only: spec_class_dets_def filter_concat)
  then show ?thesis using assms by (simp only: concat_only_one if_True)
qed

lemma filter_two_split:
  assumes "filter P xs = [x, y]"
  shows "\<exists>A B C. xs = A @ x # B @ y # C \<and> (\<forall>d\<in>set A. \<not> P d) \<and> (\<forall>d\<in>set B. \<not> P d) \<and>
           (\<forall>d\<in>set C. \<not> P d)"
proof -
  from assms [unfolded filter_eq_Cons_iff] obtain A R where
    1: "xs = A @ x # R" "\<forall>d\<in>set A. \<not> P d" and r: "[y] = filter P R" by blast
  from r have "filter P R = [y]" by simp
  from this [unfolded filter_eq_Cons_iff] obtain B C where
    2: "R = B @ y # C" "\<forall>d\<in>set B. \<not> P d" and c: "[] = filter P C" by blast
  from c have "\<forall>d\<in>set C. \<not> P d" by (metis filter_empty_conv)
  with 1 2 show ?thesis by blast
qed

lemma sorted_cls_dets_image_pair:
  assumes "i < length det_boxes" "map_of (det_boxes ! i) label = Some [a, b]"
  shows "filter (\<lambda>d. fst d = i) (sorted_cls_dets det_boxes label)
           = [(i, if snd b \<le> snd a then a else b), (i, if snd b \<le> snd a then b else a)]"
proof -
  have "filter (\<lambda>d. fst d = i) (sorted_cls_dets det_boxes label)
          = sort_key (\<lambda>k. - snd (snd k)) (filter (\<lambda>d. fst d = i) (spec_class_dets det_boxes label))"
    by (simp add: sorted_cls_dets_def cls_dets_spec filter_sort)
  also have "filter (\<lambda>d. fst d = i) (spec_class_dets det_boxes label) = [(i, a), (i, b)]"
    using spec_class_dets_image [OF assms(1), of label] assms(2) by simp
  also have "sort_key (\<lambda>k. - snd (snd k)) [(i, a), (i, b)]
          = [(i, if snd b \<le> snd a then a else b), (i, if snd b \<le> snd a then b else a)]"
    by simp
  finally show ?thesis .
qed

text \<open>
  C5. In an image with exactly one ground-truth box of a class and exactly two detections
  of the class, each with IoU at least the threshold with that box, whenever the matching
  of the class completes the detection with the higher score is processed first and is a
  true positive, and the other one is a false positive; with equal scores the one that
  comes first in the image's list is the true positive. The matching of the class has
  completed whenever \<open>compute_map\<close> returns, and it completes whenever the threshold is
  above \<open>-1\<close>, every image has the class as a key of its ground truth and the predictions
  have no more images than the ground truth.
\<close>

theorem contested_box:
  assumes "i < length det_boxes" "map_of (det_boxes ! i) label = Some [a, b]"
    "i < length gt_boxes" "map_of (gt_boxes ! i) label = Some [g]"
    "get_iou (fst a) g = Inr va" "iou_threshold \<le> va"
    "get_iou (fst b) g = Inr vb" "iou_threshold \<le> vb"
  shows "(\<forall>tp fp n. class_match iou_threshold det_boxes gt_boxes label = Inr (tp, fp, n) \<longrightarrow>
           (\<exists>p q. p < q \<and> q < length (sorted_cls_dets det_boxes label) \<and>
              length tp = length (sorted_cls_dets det_boxes label) \<and>
              length fp = length (sorted_cls_dets det_boxes label) \<and>
              sorted_cls_dets det_boxes label ! p = (i, if snd b \<le> snd a then a else b) \<and>
              sorted_cls_dets det_boxes label ! q = (i, if snd b \<le> snd a then b else a) \<and>
              tp ! p = 1 \<and> fp ! p = 0 \<and> tp ! q = 0 \<and> fp ! q = 1)) \<and>
         ((\<forall>im\<in>set gt_boxes. map_of im label \<noteq> None) \<and> length det_boxes \<le> length gt_boxes \<and>
          - 1 < iou_threshold \<longrightarrow>
            (\<exists>r. class_match iou_threshold det_boxes gt_boxes label = Inr r)) \<and>
         (\<forall>mean_ap all_aps.
            compute_map det_boxes gt_boxes iou_threshold method = Inr (mean_ap, all_aps) \<longrightarrow>
            (\<exists>tp fp. class_match iou_threshold det_boxes gt_boxes label
                       = Inr (tp, fp, gt_count gt_boxes label)))"
proof (intro conjI allI impI)
  fix tp fp n
  assume cm: "class_match iou_threshold det_boxes gt_boxes label = Inr (tp, fp, n)"
  let ?hi = "if snd b \<le> snd a then a else b"
  let ?lo = "if snd b \<le> snd a then b else a"
  let ?L = "sorted_cls_dets det_boxes label"
  let ?gts = "spec_class_gts gt_boxes label"
  let ?flags = "spec_match_dets iou_threshold ?gts (\<lambda>im j. False) ?L"
  from sorted_cls_dets_image_pair [OF assms(1,2)]
  have "filter (\<lambda>d. fst d = i) ?L = [(i, ?hi), (i, ?lo)]" .
  from filter_two_split [OF this] obtain A B C where
    L: "?L = A @ (i, ?hi) # B @ (i, ?lo) # C" and
    A: "\<forall>d\<in>set A. fst d \<noteq> i" and B: "\<forall>d\<in>set B. fst d \<noteq> i"
    by blast
  have g: "?gts i = [g]" using assms(4) by (simp add: spec_class_gts_def)
  have va: "iou_threshold \<le> iou_value (fst a) g" using assms(5,6) by (simp add: iou_value_def)
  have vb: "iou_threshold \<le> iou_value (fst b) g" using assms(7,8) by (simp add: iou_value_def)
  have hi: "iou_threshold \<le> iou_value (fst ?hi) g" using va vb by simp
  have lo: "iou_threshold \<le> iou_value (fst ?lo) g" using va vb by simp
  from spec_match_dets_two_on_one [of ?gts i g iou_threshold ?hi ?lo A B C, OF g hi lo A B]
  have f: "?flags ! length A = True" "?flags ! (length A + 1 + length B) = False"
    unfolding L [symmetric] by simp_all
  have lf: "length ?flags = length ?L" by (rule spec_match_dets_length)
  from class_match_refines [OF cm] have
    tp: "tp = tp_of ?flags" and fp: "fp = fp_of ?flags" by (simp_all add: spec_flags_def)
  have lL: "length ?L = length A + 1 + length B + 1 + length C"
    by (subst L) simp
  have p: "length A < length ?L" and q: "length A + 1 + length B < length ?L"
    using lL by simp_all
  have np: "?L ! length A = (i, ?hi)" by (subst L) simp
  have "?L ! (length A + 1 + length B) = (A @ (i, ?hi) # B @ (i, ?lo) # C) ! (length A + 1 + length B)"
    by (subst L) simp
  also have "\<dots> = (i, ?lo)" by (simp add: nth_append)
  finally have nq: "?L ! (length A + 1 + length B) = (i, ?lo)" .
  have "tp ! length A = 1" "fp ! length A = 0"
    using f(1) p lf by (simp_all add: tp fp tp_of_def fp_of_def)
  moreover have "tp ! (length A + 1 + length B) = 0" "fp ! (length A + 1 + length B) = 1"
    using f(2) q lf by (simp_all add: tp fp tp_of_def fp_of_def)
  moreover have "length tp = length ?L" "length fp = length ?L"
    using lf by (simp_all add: tp fp tp_of_def fp_of_def)
  moreover have "length A < length A + 1 + length B" by simp
  ultimately show "\<exists>p q. p < q \<and> q < length ?L \<and> length tp = length ?L \<and> length fp = length ?L \<and>
              ?L ! p = (i, ?hi) \<and> ?L ! q = (i, ?lo) \<and>
              tp ! p = 1 \<and> fp ! p = 0 \<and> tp ! q = 0 \<and> fp ! q = 1"
    using q np nq by blast
next
  assume "(\<forall>im\<in>set gt_boxes. map_of im label \<noteq> None) \<and> length det_boxes \<le> length gt_boxes \<and>
          - 1 < iou_threshold"
  then show "\<exists>r. class_match iou_threshold det_boxes gt_boxes label = Inr r"
    using class_match_progress [of gt_boxes label det_boxes iou_threshold] by blast
next
  fix mean_ap all_aps
  assume r: "compute_map det_boxes gt_boxes iou_threshold method = Inr (mean_ap, all_aps)"
  have "(label, [g]) \<in> set (gt_boxes ! i)" using assms(4) by (rule map_of_SomeD)
  then have "label \<in> fst ` set (gt_boxes ! i)" by force
  moreover have "gt_boxes ! i \<in> set gt_boxes" using assms(3) by simp
  ultimately have "label \<in> set (gt_labels gt_boxes)" unfolding set_gt_labels by blast
  with compute_map_Inr [OF r] obtain ap where
    "class_ap iou_threshold method det_boxes gt_boxes label = Inr (ap, gt_count gt_boxes label)"
    by blast
  from class_ap_Inr [OF this]
  show "\<exists>tp fp. class_match iou_threshold det_boxes gt_boxes label
                       = Inr (tp, fp, gt_count gt_boxes label)" by blast
qed

theorem contested_box_witness:
  "(0 :: nat) < length ([[(''Laptop'', [((0, 0, 10, 10), 8 / 10), ((0, 0, 10, 9), 9 / 10)])]]
                          :: string det_image list) \<and>
   map_of (([[(''Laptop'', [((0, 0, 10, 10), 8 / 10), ((0, 0, 10, 9), 9 / 10)])]]
              :: string det_image list) ! 0) ''Laptop''
     = Some [((0, 0, 10, 10), 8 / 10), ((0, 0, 10, 9), 9 / 10)] \<and>
   (0 :: nat) < length ([[(''Laptop'', [(0, 0, 10, 10)])]] :: string gt_image list) \<and>
   map_of (([[(''Laptop'', [(0, 0, 10, 10)])]] :: string gt_image list) ! 0) ''Laptop''
     = Some [(0, 0, 10, 10)] \<and>
   get_iou (0, 0, 10, 10) (0, 0, 10, 10) = Inr (100000000 / 100000001) \<and>
   (1 / 2 :: real) \<le> 100000000 / 100000001 \<and>
   get_iou (0, 0, 10, 9) (0, 0, 10, 10) = Inr (90000000 / 100000001) \<and>
   (1 / 2 :: real) \<le> 90000000 / 100000001 \<and>
   class_match (1 / 2) [[(''Laptop'', [((0, 0, 10, 10), 8 / 10), ((0, 0, 10, 9), 9 / 10)])]]
     [[(''Laptop'', [(0, 0, 10, 10)])]] ''Laptop'' = Inr ([1, 0], [0, 1], 1) \<and>
   sorted_cls_dets ([[(''Laptop'', [((0, 0, 10, 10), 8 / 10), ((0, 0, 10, 9), 9 / 10)])]]
                      :: string det_image list) ''Laptop'' ! 0 = (0, ((0, 0, 10, 9), 9 / 10))"
proof -
  let ?D = "[[(''Laptop'', [((0, 0, 10, 10), 8 / 10), ((0, 0, 10, 9), 9 / 10)])]] :: string det_image list"
  let ?G = "[[(''Laptop'', [(0, 0, 10, 10)])]] :: string gt_image list"
  let ?a = "((0, 0, 10, 10), 8 / 10) :: detection"
  let ?b = "((0, 0, 10, 9), 9 / 10) :: detection"
  have h1: "(0 :: nat) < length ?D" by simp
  have h2: "map_of (?D ! 0) ''Laptop'' = Some [?a, ?b]" by simp
  have h3: "(0 :: nat) < length ?G" by simp
  have h4: "map_of (?G ! 0) ''Laptop'' = Some [(0, 0, 10, 10)]" by simp
  have h5: "get_iou (0, 0, 10, 10) (0, 0, 10, 10) = Inr (100000000 / 100000001)"
    by (simp add: get_iou_def Let_def)
  have h6: "(1 / 2 :: real) \<le> 100000000 / 100000001" by simp
  have h7: "get_iou (0, 0, 10, 9) (0, 0, 10, 10) = Inr (90000000 / 100000001)"
    by (simp add: get_iou_def Let_def)
  have h8: "(1 / 2 :: real) \<le> 90000000 / 100000001" by simp
  have c: "class_match (1 / 2) ?D ?G ''Laptop'' = Inr ([1, 0], [0, 1], 1)" by code_simp
  have k5: "get_iou (fst ?a) (0, 0, 10, 10) = Inr (100000000 / 100000001)" using h5 by simp
  have k7: "get_iou (fst ?b) (0, 0, 10, 10) = Inr (90000000 / 100000001)" using h7 by simp
  from contested_box [OF h1 h2 h3 h4 k5 h6 k7 h8, THEN conjunct1] c
  obtain p q where pq: "p < q" "q < length (sorted_cls_dets ?D ''Laptop'')"
    "length [1 :: nat, 0] = length (sorted_cls_dets ?D ''Laptop'')"
    "sorted_cls_dets ?D ''Laptop'' ! p = (0, if snd ?b \<le> snd ?a then ?a else ?b)"
    by blast
  from pq(1,2,3) have "p = 0" by simp
  with pq(4) have s: "sorted_cls_dets ?D ''Laptop'' ! 0 = (0, ?b)" by simp
  show ?thesis by (intro conjI) (rule h1 h2 h3 h4 h5 h6 h7 h8 c s)+
qed

section \<open>The mean and an added class without ground truth\<close>

lemma py_get_map:
  "py_get (map f xs) i = (case py_get xs i of Inl e \<Rightarrow> Inl e | Inr x \<Rightarrow> Inr (f x))"
  by (auto simp: py_get_def py_index_def Let_def)

lemma map_add_single_other: "l \<noteq> c \<Longrightarrow> ([c \<mapsto> v] ++ m) l = m l"
  by (simp add: map_add_def split: option.splits)

lemma map_of_added_other:
  "l \<noteq> c \<Longrightarrow> map_of (im @ [(c, v)]) l = map_of im l"
  by (simp add: map_add_single_other)

lemma map_of_added_key:
  "c \<notin> fst ` set im \<Longrightarrow> map_of (im @ [(c, v)]) c = Some v"
proof -
  assume "c \<notin> fst ` set im"
  then have "map_of im c = None" by (simp add: map_of_eq_None_iff)
  then show ?thesis by (simp add: map_add_def)
qed

lemma class_rows_added_other:
  "l \<noteq> c \<Longrightarrow> class_rows (map (\<lambda>im. im @ [(c, [])]) gt_boxes) l = class_rows gt_boxes l"
  by (induction gt_boxes) (simp_all add: map_add_single_other split: option.splits)

lemma match_det_added_other:
  assumes "l \<noteq> c"
  shows "match_det thr (map (\<lambda>im. im @ [(c, [])]) gt_boxes) l gt_matched d
           = match_det thr gt_boxes l gt_matched d"
proof (cases "py_get gt_boxes (int (fst d))")
  case (Inl e)
  then show ?thesis by (cases d) (simp add: match_det_def py_get_map)
next
  case (Inr im)
  then show ?thesis
    using assms by (cases d) (simp add: match_det_def py_get_map map_add_single_other)
qed

lemma match_dets_added_other:
  assumes "l \<noteq> c"
  shows "match_dets thr (map (\<lambda>im. im @ [(c, [])]) gt_boxes) l gt_matched ds
           = match_dets thr gt_boxes l gt_matched ds"
  by (induction ds arbitrary: gt_matched)
     (simp_all add: match_det_added_other [OF assms] split: sum.splits)

lemma class_ap_added_other:
  assumes "l \<noteq> c"
  shows "class_ap thr method det_boxes (map (\<lambda>im. im @ [(c, [])]) gt_boxes) l
           = class_ap thr method det_boxes gt_boxes l"
proof -
  have "class_match thr det_boxes (map (\<lambda>im. im @ [(c, [])]) gt_boxes) l
          = class_match thr det_boxes gt_boxes l"
    unfolding class_match_def class_rows_added_other [OF assms]
    by (simp add: match_dets_added_other [OF assms] cong: sum.case_cong)
  then show ?thesis unfolding class_ap_def by (rule arg_cong)
qed

lemma gt_count_added_other:
  "l \<noteq> c \<Longrightarrow> gt_count (map (\<lambda>im. im @ [(c, [])]) gt_boxes) l = gt_count gt_boxes l"
  by (induction gt_boxes) (simp_all add: gt_count_def map_add_single_other)

lemma gt_count_added_key:
  "c \<notin> set (gt_labels gt_boxes) \<Longrightarrow> gt_count (map (\<lambda>im. im @ [(c, [])]) gt_boxes) c = 0"
proof (induction gt_boxes)
  case Nil
  then show ?case by (simp add: gt_count_def)
next
  case (Cons im rest)
  then have "c \<notin> fst ` set im" "c \<notin> set (gt_labels rest)" by (auto simp: set_gt_labels)
  with Cons.IH map_of_added_key [of c im "[]"] show ?case
    by (simp add: gt_count_def del: map_of_append)
qed

lemma set_gt_labels_added:
  "set (gt_labels (map (\<lambda>im. im @ [(c, [])]) gt_boxes))
     = (if gt_boxes = [] then {} else insert c (set (gt_labels gt_boxes)))"
  by (auto simp: set_gt_labels)

lemma sorted_gt_labels: "sorted (gt_labels gt_boxes)"
  by (simp add: gt_labels_def)

text \<open>The classes with ground truth are the same after a class without boxes is added.\<close>

lemma positive_labels_added:
  assumes "c \<notin> set (gt_labels gt_boxes)"
  shows "[l \<leftarrow> gt_labels (map (\<lambda>im. im @ [(c, [])]) gt_boxes).
            0 < gt_count (map (\<lambda>im. im @ [(c, [])]) gt_boxes) l]
         = [l \<leftarrow> gt_labels gt_boxes. 0 < gt_count gt_boxes l]"
proof (rule sorted_distinct_set_unique)
  let ?gt' = "map (\<lambda>im. im @ [(c, [])]) gt_boxes"
  show "sorted [l \<leftarrow> gt_labels ?gt'. 0 < gt_count ?gt' l]"
    using sorted_filter [of "\<lambda>x. x" "gt_labels ?gt'"] sorted_gt_labels [of ?gt'] by simp
  show "sorted [l \<leftarrow> gt_labels gt_boxes. 0 < gt_count gt_boxes l]"
    using sorted_filter [of "\<lambda>x. x" "gt_labels gt_boxes"] sorted_gt_labels [of gt_boxes] by simp
  show "distinct [l \<leftarrow> gt_labels ?gt'. 0 < gt_count ?gt' l]"
    by (intro distinct_filter) (rule distinct_gt_labels)
  show "distinct [l \<leftarrow> gt_labels gt_boxes. 0 < gt_count gt_boxes l]"
    by (intro distinct_filter) (rule distinct_gt_labels)
  show "set [l \<leftarrow> gt_labels ?gt'. 0 < gt_count ?gt' l]
          = set [l \<leftarrow> gt_labels gt_boxes. 0 < gt_count gt_boxes l]"
  proof (intro set_eqI iffI)
    fix l assume "l \<in> set [l \<leftarrow> gt_labels ?gt'. 0 < gt_count ?gt' l]"
    then have a: "l \<in> set (gt_labels ?gt')" "0 < gt_count ?gt' l" by simp_all
    have "l \<noteq> c" using a(2) gt_count_added_key [OF assms] by auto
    moreover from this a(1) have "l \<in> set (gt_labels gt_boxes)"
      by (auto simp: set_gt_labels_added split: if_splits)
    ultimately show "l \<in> set [l \<leftarrow> gt_labels gt_boxes. 0 < gt_count gt_boxes l]"
      using a(2) by (simp add: gt_count_added_other)
  next
    fix l assume "l \<in> set [l \<leftarrow> gt_labels gt_boxes. 0 < gt_count gt_boxes l]"
    then have a: "l \<in> set (gt_labels gt_boxes)" "0 < gt_count gt_boxes l" by simp_all
    then have "l \<noteq> c" using assms by auto
    moreover have "gt_boxes \<noteq> []" using a(1) by (auto simp: set_gt_labels)
    ultimately show "l \<in> set [l \<leftarrow> gt_labels ?gt'. 0 < gt_count ?gt' l]"
      using a by (simp add: gt_count_added_other set_gt_labels_added)
  qed
qed


lemma added_class_same_mean:
  assumes "compute_map det_boxes gt_boxes thr method = Inr (mean_ap, all_aps)"
    "c \<notin> set (gt_labels gt_boxes)"
    "compute_map det_boxes (map (\<lambda>im. im @ [(c, [])]) gt_boxes) thr method = Inr (m', a')"
  shows "m' = mean_ap \<and> map_of a' c = Some NaN"
proof -
  let ?gt' = "map (\<lambda>im. im @ [(c, [])]) gt_boxes"
  let ?f = "\<lambda>l. fst (projr (class_ap thr method det_boxes gt_boxes l))"
  let ?f' = "\<lambda>l. fst (projr (class_ap thr method det_boxes ?gt' l))"
  let ?pos = "[l \<leftarrow> gt_labels gt_boxes. 0 < gt_count gt_boxes l]"
  note r = compute_map_Inr [OF assms(1)]
  note r' = compute_map_Inr [OF assms(3)]
  have p: "[l \<leftarrow> gt_labels ?gt'. 0 < gt_count ?gt' l] = ?pos"
    using assms(2) by (rule positive_labels_added)
  have e: "map ?f' ?pos = map ?f ?pos"
  proof (rule map_cong [OF refl])
    fix l assume "l \<in> set ?pos"
    then have "l \<noteq> c" using assms(2) by auto
    then show "?f' l = ?f l" by (simp add: class_ap_added_other)
  qed
  from r' have m1: "m' = sum_list (map ?f' ?pos) / real (length ?pos)"
    unfolding p by blast
  from r have m2: "mean_ap = sum_list (map ?f ?pos) / real (length ?pos)" by blast
  have m: "m' = mean_ap" unfolding m1 m2 e ..
  from r have "?pos \<noteq> []" by blast
  then have "gt_boxes \<noteq> []" by (auto simp: gt_labels_def)
  then have "c \<in> set (gt_labels ?gt')" by (simp add: set_gt_labels_added)
  with r' obtain a where "map_of a' c = Some (if 0 < gt_count ?gt' c then AP a else NaN)"
    by blast
  then have "map_of a' c = Some NaN" using gt_count_added_key [OF assms(2)] by simp
  with m show ?thesis by simp
qed

lemma added_class_returns:
  assumes "compute_map det_boxes gt_boxes thr method = Inr (mean_ap, all_aps)"
    "c \<notin> set (gt_labels gt_boxes)" "length det_boxes \<le> length gt_boxes" "- 1 < thr"
  shows "\<exists>a'. compute_map det_boxes (map (\<lambda>im. im @ [(c, [])]) gt_boxes) thr method
                 = Inr (mean_ap, a')"
proof -
  let ?gt' = "map (\<lambda>im. im @ [(c, [])]) gt_boxes"
  let ?pos = "[l \<leftarrow> gt_labels gt_boxes. 0 < gt_count gt_boxes l]"
  note r = compute_map_Inr [OF assms(1)]
  from r have ne: "?pos \<noteq> []" by blast
  define l0 where "l0 = hd ?pos"
  from ne have "hd ?pos \<in> set ?pos" by (rule hd_in_set)
  then have "l0 \<in> set (gt_labels gt_boxes)" unfolding l0_def by simp
  with r obtain a0 where "class_ap thr method det_boxes gt_boxes l0 = Inr (a0, gt_count gt_boxes l0)"
    by blast
  then have me: "method = ''area'' \<or> method = ''interp''" by (rule class_ap_method)
  have keys: "\<forall>im\<in>set ?gt'. map_of im c \<noteq> None"
  proof
    fix im assume "im \<in> set ?gt'"
    then obtain im0 where "im0 \<in> set gt_boxes" "im = im0 @ [(c, [])]" by auto
    moreover from this assms(2) have "c \<notin> fst ` set im0" by (auto simp: set_gt_labels)
    ultimately show "map_of im c \<noteq> None" using map_of_added_key [of c im0 "[]"] by simp
  qed
  have "\<forall>l\<in>set (gt_labels ?gt'). \<exists>res. class_ap thr method det_boxes ?gt' l = Inr res"
  proof
    fix l assume l: "l \<in> set (gt_labels ?gt')"
    show "\<exists>res. class_ap thr method det_boxes ?gt' l = Inr res"
    proof (cases "l = c")
      case True
      have "length det_boxes \<le> length ?gt'" using assms(3) by simp
      from class_ap_progress [OF keys this assms(4) me] True show ?thesis by simp
    next
      case False
      with l have "l \<in> set (gt_labels gt_boxes)"
        by (auto simp: set_gt_labels_added split: if_splits)
      with r obtain a where "class_ap thr method det_boxes gt_boxes l = Inr (a, gt_count gt_boxes l)"
        by blast
      with False show ?thesis by (simp add: class_ap_added_other)
    qed
  qed
  from classes_loop_returns [OF this, of "[]" "[]"] obtain aps' a' where
    l': "classes_loop thr method det_boxes ?gt' (gt_labels ?gt') [] [] = Inr (aps', a')"
    by auto
  from classes_loop_Inr [OF l'] have
    "aps' = map (\<lambda>l. fst (projr (class_ap thr method det_boxes ?gt' l)))
              [l \<leftarrow> gt_labels ?gt'. 0 < gt_count ?gt' l]" by simp
  with positive_labels_added [OF assms(2)] ne have "aps' \<noteq> []" by simp
  with l' have "compute_map det_boxes ?gt' thr method
                  = Inr (sum_list aps' / real (length aps'), a')"
    by (simp add: compute_map_def)
  moreover from added_class_same_mean [OF assms(1,2) this]
  have "sum_list aps' / real (length aps') = mean_ap" by simp
  ultimately show ?thesis by auto
qed

text \<open>
  C3 as stated fails for a threshold that is not above \<open>-1\<close>: when the added class has a
  detection, the call that returned a mean before raises IndexError after the class is
  added.
\<close>

theorem added_class_counterexample:
  "compute_map [[(''Laptop'', [((0, 0, 1, 1), 9 / 10)]), (''Tablet'', [((0, 0, 1, 1), 8 / 10)])]]
     [[(''Laptop'', [(0, 0, 1, 1)])]] (- 1) ''area'' = Inr (1, [(''Laptop'', AP 1)]) \<and>
   compute_map [[(''Laptop'', [((0, 0, 1, 1), 9 / 10)]), (''Tablet'', [((0, 0, 1, 1), 8 / 10)])]]
     (map (\<lambda>im. im @ [(''Tablet'', [])]) [[(''Laptop'', [(0, 0, 1, 1)])]]) (- 1) ''area''
     = Inl IndexError"
  by code_simp

text \<open>
  C3, amended. When \<open>compute_map\<close> returns, the mean is the unweighted arithmetic mean of
  the APs of exactly the classes of the class universe with at least one ground-truth
  box, each AP being the entry of its class in the per-class result. Adding to every image
  a new key with an empty list of boxes never changes the mean of a call that still
  returns, the new class gets the entry NaN, and the call does return, with the same mean,
  whenever the threshold is above \<open>-1\<close> and the predictions have no more images than the
  ground truth.
\<close>

theorem mean_over_classes_with_gt:
  assumes "compute_map det_boxes gt_boxes iou_threshold method = Inr (mean_ap, all_aps)"
  shows "(\<exists>f. (\<forall>l\<in>set (gt_labels gt_boxes).
                  class_ap iou_threshold method det_boxes gt_boxes l = Inr (f l, gt_count gt_boxes l) \<and>
                  map_of all_aps l = Some (if 0 < gt_count gt_boxes l then AP (f l) else NaN)) \<and>
              [l \<leftarrow> gt_labels gt_boxes. 0 < gt_count gt_boxes l] \<noteq> [] \<and>
              mean_ap = sum_list (map f [l \<leftarrow> gt_labels gt_boxes. 0 < gt_count gt_boxes l])
                        / real (length [l \<leftarrow> gt_labels gt_boxes. 0 < gt_count gt_boxes l])) \<and>
         (c \<notin> set (gt_labels gt_boxes) \<longrightarrow>
            (\<forall>m' a'. compute_map det_boxes (map (\<lambda>im. im @ [(c, [])]) gt_boxes) iou_threshold method
                        = Inr (m', a') \<longrightarrow> m' = mean_ap \<and> map_of a' c = Some NaN) \<and>
            (length det_boxes \<le> length gt_boxes \<and> - 1 < iou_threshold \<longrightarrow>
               (\<exists>a'. compute_map det_boxes (map (\<lambda>im. im @ [(c, [])]) gt_boxes) iou_threshold method
                        = Inr (mean_ap, a'))))"
proof (intro conjI impI allI)
  let ?f = "\<lambda>l. fst (projr (class_ap iou_threshold method det_boxes gt_boxes l))"
  let ?pos = "[l \<leftarrow> gt_labels gt_boxes. 0 < gt_count gt_boxes l]"
  note r = compute_map_Inr [OF assms]
  have "\<forall>l\<in>set (gt_labels gt_boxes).
          class_ap iou_threshold method det_boxes gt_boxes l = Inr (?f l, gt_count gt_boxes l) \<and>
          map_of all_aps l = Some (if 0 < gt_count gt_boxes l then AP (?f l) else NaN)"
  proof
    fix l assume "l \<in> set (gt_labels gt_boxes)"
    with r obtain a where
      "class_ap iou_threshold method det_boxes gt_boxes l = Inr (a, gt_count gt_boxes l)"
      "map_of all_aps l = Some (if 0 < gt_count gt_boxes l then AP a else NaN)" by blast
    then show "class_ap iou_threshold method det_boxes gt_boxes l = Inr (?f l, gt_count gt_boxes l) \<and>
          map_of all_aps l = Some (if 0 < gt_count gt_boxes l then AP (?f l) else NaN)" by simp
  qed
  moreover from r have "?pos \<noteq> []" "mean_ap = sum_list (map ?f ?pos) / real (length ?pos)"
    by blast+
  ultimately show "\<exists>f. (\<forall>l\<in>set (gt_labels gt_boxes).
                  class_ap iou_threshold method det_boxes gt_boxes l = Inr (f l, gt_count gt_boxes l) \<and>
                  map_of all_aps l = Some (if 0 < gt_count gt_boxes l then AP (f l) else NaN)) \<and>
              ?pos \<noteq> [] \<and> mean_ap = sum_list (map f ?pos) / real (length ?pos)"
    by (intro exI [of _ ?f]) simp
next
  fix m' a'
  assume "c \<notin> set (gt_labels gt_boxes)"
    "compute_map det_boxes (map (\<lambda>im. im @ [(c, [])]) gt_boxes) iou_threshold method = Inr (m', a')"
  from added_class_same_mean [OF assms this]
  show "m' = mean_ap" and "map_of a' c = Some NaN" by simp_all
next
  assume "c \<notin> set (gt_labels gt_boxes)" "length det_boxes \<le> length gt_boxes \<and> - 1 < iou_threshold"
  then show "\<exists>a'. compute_map det_boxes (map (\<lambda>im. im @ [(c, [])]) gt_boxes) iou_threshold method
                        = Inr (mean_ap, a')"
    using added_class_returns [OF assms] by blast
qed


theorem mean_over_classes_with_gt_witness:
  "compute_map [[(''Laptop'', [((0, 0, 1, 1), 9 / 10)]), (''Tablet'', [((0, 0, 1, 1), 8 / 10)])]]
     [[(''Laptop'', [(0, 0, 1, 1)])]] (1 / 2) ''area'' = Inr (1, [(''Laptop'', AP 1)]) \<and>
   ''Tablet'' \<notin> set (gt_labels ([[(''Laptop'', [(0, 0, 1, 1)])]] :: string gt_image list)) \<and>
   length ([[(''Laptop'', [((0, 0, 1, 1), 9 / 10)]), (''Tablet'', [((0, 0, 1, 1), 8 / 10)])]]
             :: string det_image list)
     \<le> length ([[(''Laptop'', [(0, 0, 1, 1)])]] :: string gt_image list) \<and>
   - 1 < (1 / 2 :: real) \<and>
   (\<exists>a'. compute_map [[(''Laptop'', [((0, 0, 1, 1), 9 / 10)]), (''Tablet'', [((0, 0, 1, 1), 8 / 10)])]]
           (map (\<lambda>im. im @ [(''Tablet'', [])]) [[(''Laptop'', [(0, 0, 1, 1)])]]) (1 / 2) ''area''
           = Inr (1, a')) \<and>
   compute_map [[(''Laptop'', [((0, 0, 1, 1), 9 / 10)]), (''Tablet'', [((0, 0, 1, 1), 8 / 10)])]]
     (map (\<lambda>im. im @ [(''Tablet'', [])]) [[(''Laptop'', [(0, 0, 1, 1)])]]) (1 / 2) ''area''
     = Inr (1, [(''Laptop'', AP 1), (''Tablet'', NaN)])"
proof -
  let ?D = "[[(''Laptop'', [((0, 0, 1, 1), 9 / 10)]), (''Tablet'', [((0, 0, 1, 1), 8 / 10)])]]
              :: string det_image list"
  let ?G = "[[(''Laptop'', [(0, 0, 1, 1)])]] :: string gt_image list"
  have h1: "compute_map ?D ?G (1 / 2) ''area'' = Inr (1, [(''Laptop'', AP 1)])" by code_simp
  have h2: "''Tablet'' \<notin> set (gt_labels ?G)" by (simp add: set_gt_labels)
  have h3: "length ?D \<le> length ?G" by simp
  have h4: "- 1 < (1 / 2 :: real)" by simp
  from mean_over_classes_with_gt [OF h1, of "''Tablet''"] h2 h3 h4
  have e: "\<exists>a'. compute_map ?D (map (\<lambda>im. im @ [(''Tablet'', [])]) ?G) (1 / 2) ''area'' = Inr (1, a')"
    by blast
  have k: "compute_map ?D (map (\<lambda>im. im @ [(''Tablet'', [])]) ?G) (1 / 2) ''area''
             = Inr (1, [(''Laptop'', AP 1), (''Tablet'', NaN)])" by code_simp
  show ?thesis by (intro conjI) (rule h1 h2 h3 h4 e k)+
qed

end
